theory Spec2Isabelle
  imports Main "HOL-Library.AList"
begin

section \<open>The feed monitoring engine of carter-bot (class RSSManager)\<close>

text \<open>
  The model follows the JavaScript class \<open>RSSManager\<close>. A JavaScript \<open>Map\<close> is an
  association list in insertion order: \<open>has\<close>/\<open>get\<close> are \<open>map_of\<close>, \<open>set\<close> is
  \<open>AList.update\<close> (overwrite in place, or append a new key at the end), \<open>delete\<close> is
  \<open>AList.delete\<close> and \<open>size\<close> is \<open>length\<close>. A value that may be \<open>null\<close> or
  \<open>undefined\<close> is an \<open>option\<close>. Awaited calls to the outside (fetching and parsing a
  feed, sending to a channel, writing the JSON file, reading the clock) are answered by
  an environment record, and every such call is written to a list of events, so that
  "nothing was fetched", "nothing was delivered" and "nothing was saved" are statements
  about that list. Log output is not modelled.
\<close>

subsection \<open>Data\<close>

record Item =
  guid :: "string option"
  item_title :: "string option"
  item_link :: "string option"

text \<open>The parsed document. An empty \<open>items\<close> also stands for a missing array: the code
  tests \<open>feed.items && feed.items.length > 0\<close>.\<close>

record Feed =
  feed_title :: "string option"
  feed_description :: "string option"
  items :: "Item list"

record FeedInfo =
  url :: "string option"
  interval :: int
  lastChecked :: "int option"
  lastPostId :: "string option"
  active :: bool
  title :: "string option"
  description :: "string option"

text \<open>One feed object of \<open>feeds.json\<close>; every property may be missing (or \<open>null\<close>).
  \<open>j_lastChecked\<close> stands for the ISO-8601 text of the time stamp.\<close>

record StoredFeed =
  j_url :: "string option"
  j_interval :: "int option"
  j_lastChecked :: "int option"
  j_lastPostId :: "string option"
  j_active :: "bool option"
  j_title :: "string option"
  j_description :: "string option"

datatype FeedsFile =
    Missing
  | Unreadable
  | Json "(string \<times> (string \<times> StoredFeed) list) list"

record Config =
  defaultInterval :: int
  maxFeedsPerChannel :: int

record RSSManager =
  feeds :: "(string \<times> (string \<times> FeedInfo) list) list"
  config :: Config
  cronJobs :: "(string \<times> int) list"
  client :: bool
  feedsFile :: FeedsFile

datatype PostOutcome = Posted | ChannelNotFound | SendFailed

datatype Event =
    Fetch string
  | Post string Item PostOutcome
  | Delay nat
  | Saved
  | SaveFailed

record Env =
  parseURL :: "string \<Rightarrow> Feed option"
  channel_send :: "nat \<Rightarrow> string \<Rightarrow> Item \<Rightarrow> PostOutcome"
  writeJson_ok :: bool
  cron_ok :: bool
  now :: int

datatype AddError = InvalidFeed | LimitExceeded | AlreadyExists | AddFailed

datatype RemoveError = NoChannelFeeds | FeedNotFound | RemoveFailed

record FeedListing =
  l_url :: string
  l_title :: "string option"
  l_description :: "string option"
  l_active :: bool
  l_lastChecked :: "int option"
  l_interval :: int

record Statistics =
  totalFeeds :: nat
  totalChannels :: nat
  activeJobs :: nat
  stat_config :: Config

subsection \<open>JavaScript idioms\<close>

text \<open>Truthiness of a string-or-null value: \<open>null\<close>, \<open>undefined\<close> and the empty
  string are falsy.\<close>

definition truthy :: "string option \<Rightarrow> bool" where
  "truthy v = (case v of None \<Rightarrow> False | Some s \<Rightarrow> s \<noteq> [])"

text \<open>\<open>a || d\<close> on strings and on numbers.\<close>

definition or_str :: "string option \<Rightarrow> string \<Rightarrow> string" where
  "or_str v d = (case v of None \<Rightarrow> d | Some s \<Rightarrow> if s = [] then d else s)"

definition or_int :: "int option \<Rightarrow> int \<Rightarrow> int" where
  "or_int v d = (case v of None \<Rightarrow> d | Some i \<Rightarrow> if i = 0 then d else i)"

definition has :: "('k \<times> 'v) list \<Rightarrow> 'k \<Rightarrow> bool" where
  "has m k = (map_of m k \<noteq> None)"

text \<open>\<open>this.feeds.get(channelId)?.get(feedUrl)\<close>\<close>

definition getFeed :: "RSSManager \<Rightarrow> string \<Rightarrow> string \<Rightarrow> FeedInfo option" where
  "getFeed s channelId feedUrl =
     (case map_of (feeds s) channelId of
        None \<Rightarrow> None
      | Some channelFeeds \<Rightarrow> map_of channelFeeds feedUrl)"

text \<open>The constructor: no feeds, the built-in configuration, no jobs, no client.\<close>

definition constructor :: "FeedsFile \<Rightarrow> RSSManager" where
  "constructor file =
     \<lparr> feeds = [],
       config = \<lparr> defaultInterval = 300000, maxFeedsPerChannel = 10 \<rparr>,
       cronJobs = [],
       client = False,
       feedsFile = file \<rparr>"

subsection \<open>Persistence: loadFeeds and saveFeeds\<close>

definition loadInfo :: "Config \<Rightarrow> StoredFeed \<Rightarrow> FeedInfo" where
  "loadInfo cfg feedInfo =
     \<lparr> url = j_url feedInfo,
       interval = or_int (j_interval feedInfo) (defaultInterval cfg),
       lastChecked = j_lastChecked feedInfo,
       lastPostId = (if truthy (j_lastPostId feedInfo) then j_lastPostId feedInfo else None),
       active = (j_active feedInfo \<noteq> Some False),
       title = Some (or_str (j_title feedInfo) ''Unknown Feed''),
       description = Some (or_str (j_description feedInfo) '''') \<rparr>"

definition loadChannel ::
  "Config \<Rightarrow> string \<times> (string \<times> StoredFeed) list \<Rightarrow>
   (string \<times> (string \<times> FeedInfo) list) list \<Rightarrow> (string \<times> (string \<times> FeedInfo) list) list" where
  "loadChannel cfg entry fs =
     (case entry of (channelId, channelFeeds) \<Rightarrow>
        let fs1 = (if \<not> has fs channelId then AList.update channelId [] fs else fs);
            channelFeedMap = (case map_of fs1 channelId of None \<Rightarrow> [] | Some m \<Rightarrow> m)
        in AList.update channelId
             (fold (\<lambda>(feedUrl, feedInfo). AList.update feedUrl (loadInfo cfg feedInfo))
                   channelFeeds channelFeedMap)
             fs1)"

definition loadFeeds :: "RSSManager \<Rightarrow> RSSManager" where
  "loadFeeds s =
     (case feedsFile s of
        Missing \<Rightarrow> s
      | Unreadable \<Rightarrow> s\<lparr>feeds := []\<rparr>
      | Json feedData \<Rightarrow> s\<lparr>feeds := fold (loadChannel (config s)) feedData (feeds s)\<rparr>)"

definition storeInfo :: "FeedInfo \<Rightarrow> StoredFeed" where
  "storeInfo feedInfo =
     \<lparr> j_url = url feedInfo,
       j_interval = Some (interval feedInfo),
       j_lastChecked = lastChecked feedInfo,
       j_lastPostId = lastPostId feedInfo,
       j_active = Some (active feedInfo),
       j_title = title feedInfo,
       j_description = description feedInfo \<rparr>"

definition feedData_of ::
  "(string \<times> (string \<times> FeedInfo) list) list \<Rightarrow> (string \<times> (string \<times> StoredFeed) list) list" where
  "feedData_of fs =
     map (\<lambda>(channelId, channelFeeds).
            (channelId, map (\<lambda>(feedUrl, feedInfo). (feedUrl, storeInfo feedInfo)) channelFeeds))
         fs"

text \<open>\<open>saveFeeds\<close> returns the new state and whether it returned normally; \<open>False\<close>
  is the rethrown write error.\<close>

definition saveFeeds :: "Env \<Rightarrow> RSSManager \<Rightarrow> RSSManager \<times> bool" where
  "saveFeeds env s =
     (if writeJson_ok env then (s\<lparr>feedsFile := Json (feedData_of (feeds s))\<rparr>, True)
      else (s, False))"

subsection \<open>Scheduling\<close>

definition feedKey :: "string \<Rightarrow> string \<Rightarrow> string" where
  "feedKey channelId feedUrl = channelId @ ''-'' @ feedUrl"

definition stopFeedCheck :: "string \<Rightarrow> string \<Rightarrow> RSSManager \<Rightarrow> RSSManager" where
  "stopFeedCheck channelId feedUrl s =
     (if has (cronJobs s) (feedKey channelId feedUrl)
      then s\<lparr>cronJobs := AList.delete (feedKey channelId feedUrl) (cronJobs s)\<rparr>
      else s)"

definition startFeedCheck :: "Env \<Rightarrow> string \<Rightarrow> string \<Rightarrow> RSSManager \<Rightarrow> RSSManager" where
  "startFeedCheck env channelId feedUrl s0 =
     (let s = stopFeedCheck channelId feedUrl s0 in
      case getFeed s channelId feedUrl of
        None \<Rightarrow> s
      | Some feedInfo \<Rightarrow>
          if \<not> active feedInfo then s
          else let intervalMinutes = max 1 (interval feedInfo div 60000) in
               if cron_ok env
               then s\<lparr>cronJobs := AList.update (feedKey channelId feedUrl) intervalMinutes (cronJobs s)\<rparr>
               else s)"

subsection \<open>addFeed, removeFeed, getChannelFeeds, getStatistics\<close>

definition validateFeed :: "Env \<Rightarrow> string \<Rightarrow> Feed option" where
  "validateFeed env feedUrl = parseURL env feedUrl"

definition addFeed ::
  "Env \<Rightarrow> string \<Rightarrow> string \<Rightarrow> int option \<Rightarrow> RSSManager \<Rightarrow>
   (AddError + FeedInfo) \<times> RSSManager \<times> Event list" where
  "addFeed env channelId feedUrl ival s =
     (case validateFeed env feedUrl of
        None \<Rightarrow> (Inl InvalidFeed, s, [Fetch feedUrl])
      | Some feed \<Rightarrow>
          let s1 = (if \<not> has (feeds s) channelId
                    then s\<lparr>feeds := AList.update channelId [] (feeds s)\<rparr> else s);
              channelFeeds = (case map_of (feeds s1) channelId of None \<Rightarrow> [] | Some m \<Rightarrow> m)
          in if int (length channelFeeds) \<ge> maxFeedsPerChannel (config s1)
             then (Inl LimitExceeded, s1, [Fetch feedUrl])
             else if has channelFeeds feedUrl
             then (Inl AlreadyExists, s1, [Fetch feedUrl])
             else
               let feedData =
                     \<lparr> url = Some feedUrl,
                       interval = or_int ival (defaultInterval (config s1)),
                       lastChecked = None,
                       lastPostId = None,
                       active = True,
                       title = Some (or_str (feed_title feed) ''Unknown Feed''),
                       description = Some (or_str (feed_description feed) '''') \<rparr>;
                   s2 = s1\<lparr>feeds := AList.update channelId
                                        (AList.update feedUrl feedData channelFeeds) (feeds s1)\<rparr>
               in case saveFeeds env s2 of
                    (s3, False) \<Rightarrow> (Inl AddFailed, s3, [Fetch feedUrl, SaveFailed])
                  | (s3, True) \<Rightarrow>
                      (Inr feedData, startFeedCheck env channelId feedUrl s3,
                       [Fetch feedUrl, Saved]))"

definition removeFeed ::
  "Env \<Rightarrow> string \<Rightarrow> string \<Rightarrow> RSSManager \<Rightarrow> (RemoveError + FeedInfo) \<times> RSSManager \<times> Event list" where
  "removeFeed env channelId feedUrl s =
     (case map_of (feeds s) channelId of
        None \<Rightarrow> (Inl NoChannelFeeds, s, [])
      | Some channelFeeds \<Rightarrow>
          (case map_of channelFeeds feedUrl of
             None \<Rightarrow> (Inl FeedNotFound, s, [])
           | Some feedInfo \<Rightarrow>
               let channelFeeds' = AList.delete feedUrl channelFeeds;
                   s1 = (if length channelFeeds' = 0
                         then s\<lparr>feeds := AList.delete channelId (feeds s)\<rparr>
                         else s\<lparr>feeds := AList.update channelId channelFeeds' (feeds s)\<rparr>);
                   s2 = stopFeedCheck channelId feedUrl s1
               in case saveFeeds env s2 of
                    (s3, False) \<Rightarrow> (Inl RemoveFailed, s3, [SaveFailed])
                  | (s3, True) \<Rightarrow> (Inr feedInfo, s3, [Saved])))"

definition getChannelFeeds :: "RSSManager \<Rightarrow> string \<Rightarrow> FeedListing list" where
  "getChannelFeeds s channelId =
     (case map_of (feeds s) channelId of
        None \<Rightarrow> []
      | Some channelFeeds \<Rightarrow>
          map (\<lambda>(u, feedInfo).
                 \<lparr> l_url = u,
                   l_title = title feedInfo,
                   l_description = description feedInfo,
                   l_active = active feedInfo,
                   l_lastChecked = lastChecked feedInfo,
                   l_interval = interval feedInfo \<rparr>)
              channelFeeds)"

definition getTotalFeedCount :: "RSSManager \<Rightarrow> nat" where
  "getTotalFeedCount s = fold (\<lambda>(channelId, channelFeeds) count. count + length channelFeeds) (feeds s) 0"

definition getStatistics :: "RSSManager \<Rightarrow> Statistics" where
  "getStatistics s =
     \<lparr> totalFeeds = getTotalFeedCount s,
       totalChannels = length (feeds s),
       activeJobs = length (cronJobs s),
       stat_config = config s \<rparr>"

subsection \<open>checkFeed and postFeedItem\<close>

text \<open>The collecting loop of \<open>checkFeed\<close>: it stops at the item whose \<open>guid\<close> is the
  stored \<open>lastPostId\<close> (when that is truthy) and after the fifth collected item.\<close>

fun collectNew :: "string option \<Rightarrow> Item list \<Rightarrow> Item list \<Rightarrow> Item list" where
  "collectNew lastId [] newItems = newItems"
| "collectNew lastId (item # rest) newItems =
     (if truthy lastId \<and> guid item = lastId then newItems
      else let newItems' = newItems @ [item] in
           if length newItems' \<ge> 5 then newItems' else collectNew lastId rest newItems')"

text \<open>\<open>postFeedItem\<close> catches every error of its own; the outcome is what happened.
  The first argument after the environment is the position of the call in the batch.\<close>

definition postFeedItem :: "Env \<Rightarrow> nat \<Rightarrow> string \<Rightarrow> Feed \<Rightarrow> Item \<Rightarrow> Event" where
  "postFeedItem env k channelId feed item = Post channelId item (channel_send env k channelId item)"

fun postAll :: "Env \<Rightarrow> string \<Rightarrow> Feed \<Rightarrow> nat \<Rightarrow> nat \<Rightarrow> Item list \<Rightarrow> Event list" where
  "postAll env channelId feed n k [] = []"
| "postAll env channelId feed n k (item # rest) =
     postFeedItem env k channelId feed item
       # (if n > 1 then [Delay 1000] else [])
       @ postAll env channelId feed n (Suc k) rest"

definition setFeed :: "string \<Rightarrow> string \<Rightarrow> FeedInfo \<Rightarrow> RSSManager \<Rightarrow> RSSManager" where
  "setFeed channelId feedUrl feedInfo s =
     (case map_of (feeds s) channelId of
        None \<Rightarrow> s
      | Some channelFeeds \<Rightarrow>
          s\<lparr>feeds := AList.update channelId (AList.update feedUrl feedInfo channelFeeds) (feeds s)\<rparr>)"

definition checkFeed :: "Env \<Rightarrow> string \<Rightarrow> string \<Rightarrow> RSSManager \<Rightarrow> RSSManager \<times> Event list" where
  "checkFeed env channelId feedUrl s =
     (if \<not> client s then (s, [])
      else case map_of (feeds s) channelId of
        None \<Rightarrow> (s, [])
      | Some channelFeeds \<Rightarrow>
          (case map_of channelFeeds feedUrl of
             None \<Rightarrow> (s, [])
           | Some feedInfo \<Rightarrow>
               if \<not> active feedInfo then (s, [])
               else
                 (case parseURL env feedUrl of
                    None \<Rightarrow> (s, [Fetch feedUrl])
                  | Some feed \<Rightarrow>
                      let fi1 = (if feed_title feed \<noteq> title feedInfo
                                 then feedInfo\<lparr>title := feed_title feed\<rparr> else feedInfo);
                          fi2 = (if feed_description feed \<noteq> description fi1
                                 then fi1\<lparr>description := feed_description feed\<rparr> else fi1);
                          (fi3, posts) =
                            (case items feed of
                               [] \<Rightarrow> (fi2, [])
                             | latestItem # _ \<Rightarrow>
                                 if \<not> truthy (lastPostId fi2) \<or> lastPostId fi2 \<noteq> guid latestItem
                                 then
                                   let newItems = rev (collectNew (lastPostId fi2) (items feed) [])
                                   in (fi2\<lparr>lastPostId := guid latestItem\<rparr>,
                                       postAll env channelId feed (length newItems) 0 newItems)
                                 else (fi2, []));
                          fi4 = fi3\<lparr>lastChecked := Some (now env)\<rparr>;
                          s1 = setFeed channelId feedUrl fi4 s
                      in case saveFeeds env s1 of
                           (s2, False) \<Rightarrow> (s2, Fetch feedUrl # posts @ [SaveFailed])
                         | (s2, True) \<Rightarrow> (s2, Fetch feedUrl # posts @ [Saved]))))"

text \<open>Reading the event list.\<close>

fun attempted :: "Event list \<Rightarrow> Item list" where
  "attempted [] = []"
| "attempted (Post c i r # es) = i # attempted es"
| "attempted (e # es) = attempted es"

fun delivered :: "Event list \<Rightarrow> Item list" where
  "delivered [] = []"
| "delivered (Post c i Posted # es) = i # delivered es"
| "delivered (e # es) = delivered es"


fun saves :: "Event list \<Rightarrow> bool list" where
  "saves [] = []"
| "saves (Saved # es) = True # saves es"
| "saves (SaveFailed # es) = False # saves es"
| "saves (e # es) = saves es"

subsection \<open>Successive ticks of one feed's job\<close>

text \<open>The job scheduled by \<open>startFeedCheck\<close> calls \<open>checkFeed\<close> at every tick; each
  tick meets its own environment.\<close>

fun ticks :: "Env list \<Rightarrow> string \<Rightarrow> string \<Rightarrow> RSSManager \<Rightarrow> RSSManager \<times> Event list" where
  "ticks [] channelId feedUrl s = (s, [])"
| "ticks (env # envs) channelId feedUrl s =
     (case checkFeed env channelId feedUrl s of
        (s1, es1) \<Rightarrow> (case ticks envs channelId feedUrl s1 of (s2, es2) \<Rightarrow> (s2, es1 @ es2)))"

text \<open>Later ticks at which the left-out items stay behind. At every tick the fetch
  fails, or the document is empty, or one of two things holds of the document: the
  entry's watermark \<open>w\<close> is set and none of the \<open>leftOut\<close> identifiers stands before
  the first item whose \<open>guid\<close> is \<open>w\<close> (anywhere, when no item has it); or none of them
  is among the first five items. The ticks after are read with the watermark that this
  poll sets.\<close>

fun left_out_behind :: "string \<Rightarrow> string option \<Rightarrow> string option list \<Rightarrow> Env list \<Rightarrow> bool" where
  "left_out_behind feedUrl w leftOut [] = True"
| "left_out_behind feedUrl w leftOut (env # envs) =
     (case parseURL env feedUrl of
        None \<Rightarrow> left_out_behind feedUrl w leftOut envs
      | Some feed \<Rightarrow>
          if items feed = [] then left_out_behind feedUrl w leftOut envs
          else ((truthy w
                 \<and> list_all (\<lambda>i. guid i \<notin> set leftOut) (takeWhile (\<lambda>i. guid i \<noteq> w) (items feed)))
                \<or> list_all (\<lambda>i. guid i \<notin> set leftOut) (take 5 (items feed)))
               \<and> left_out_behind feedUrl (guid (hd (items feed))) leftOut envs)"

subsection \<open>Start-up\<close>

text \<open>\<open>initialize\<close> runs \<open>loadFeeds\<close> on the freshly constructed manager, under the
  built-in configuration, and \<open>loadConfig\<close> afterwards; \<open>configData\<close> is the configuration
  that \<open>loadConfig\<close> leaves.\<close>

definition initialize :: "Config \<Rightarrow> FeedsFile \<Rightarrow> RSSManager" where
  "initialize configData file = (loadFeeds (constructor file))\<lparr>config := configData\<rparr>"

subsection \<open>Properties of a registry\<close>

text \<open>No destination holds more feeds than the configured cap.\<close>

definition capacity_ok :: "RSSManager \<Rightarrow> bool" where
  "capacity_ok s =
     list_all (\<lambda>(channelId, channelFeeds). int (length channelFeeds) \<le> maxFeedsPerChannel (config s))
              (feeds s)"

text \<open>No destination key is mapped to an empty feed map.\<close>

definition no_empty_channel :: "RSSManager \<Rightarrow> bool" where
  "no_empty_channel s = list_all (\<lambda>(channelId, channelFeeds). channelFeeds \<noteq> []) (feeds s)"

text \<open>The association lists stand for maps: no key occurs twice.\<close>

definition distinct_keys :: "(string \<times> (string \<times> 'a) list) list \<Rightarrow> bool" where
  "distinct_keys fs =
     (distinct (map fst fs) \<and> list_all (\<lambda>(channelId, channelFeeds). distinct (map fst channelFeeds)) fs)"

subsection \<open>Concrete inputs\<close>

definition mkItem :: "string \<Rightarrow> Item" where
  "mkItem g = \<lparr> guid = Some g, item_title = None, item_link = None \<rparr>"

definition mkFeed :: "Item list \<Rightarrow> Feed" where
  "mkFeed its = \<lparr> feed_title = Some ''T'', feed_description = Some ''D'', items = its \<rparr>"

definition mkEnv :: "Feed option \<Rightarrow> Env" where
  "mkEnv r = \<lparr> parseURL = (\<lambda>u. r), channel_send = (\<lambda>k c i. Posted),
               writeJson_ok = True, cron_ok = True, now = 1000 \<rparr>"

definition mkInfo :: "string option \<Rightarrow> FeedInfo" where
  "mkInfo w = \<lparr> url = Some ''u'', interval = 300000, lastChecked = None, lastPostId = w,
                active = True, title = Some ''T'', description = Some ''D'' \<rparr>"

definition mkManager :: "int \<Rightarrow> (string \<times> FeedInfo) list \<Rightarrow> RSSManager" where
  "mkManager cap channelFeeds =
     \<lparr> feeds = [(''c'', channelFeeds)],
       config = \<lparr> defaultInterval = 300000, maxFeedsPerChannel = cap \<rparr>,
       cronJobs = [],
       client = True,
       feedsFile = Missing \<rparr>"

section \<open>Lemmas about the loops and the registry\<close>

lemma collectNew_take:
  "length acc < 5 \<Longrightarrow>
   collectNew l xs acc = take 5 (acc @ takeWhile (\<lambda>i. \<not> (truthy l \<and> guid i = l)) xs)"
proof (induction xs arbitrary: acc)
  case Nil
  then show ?case by simp
next
  case (Cons x xs)
  show ?case
  proof (cases "truthy l \<and> guid x = l")
    case True
    with Cons.prems show ?thesis by simp
  next
    case False
    show ?thesis
    proof (cases "Suc (length acc) \<ge> 5")
      case True
      with Cons.prems have "length acc = 4" by arith
      with False show ?thesis by (simp add: Let_def)
    next
      case False2: False
      then have "length (acc @ [x]) < 5" by simp
      from Cons.IH[OF this] False False2 show ?thesis by (simp add: Let_def)
    qed
  qed
qed

lemma attempted_postAll: "attempted (postAll env c f n k xs) = xs"
  by (induction xs arbitrary: k) (simp_all add: postFeedItem_def)


lemma attempted_append: "attempted (xs @ ys) = attempted xs @ attempted ys"
  by (induction xs rule: attempted.induct) simp_all


lemma getFeed_cases:
  "getFeed s d u = Some fi \<Longrightarrow>
   \<exists>cf. map_of (feeds s) d = Some cf \<and> map_of cf u = Some fi"
  by (auto simp: getFeed_def split: option.splits)

lemma checkFeed_attempted:
  assumes "client s" "getFeed s d u = Some fi" "active fi" "parseURL env u = Some feed"
  shows "attempted (snd (checkFeed env d u s)) =
           rev (take 5 (takeWhile (\<lambda>i. \<not> (truthy (lastPostId fi) \<and> guid i = lastPostId fi))
                                  (items feed)))"
proof -
  from getFeed_cases[OF assms(2)] obtain cf
    where cf: "map_of (feeds s) d = Some cf" "map_of cf u = Some fi" by blast
  show ?thesis
    using assms(1,3,4) cf
    by (auto simp: checkFeed_def Let_def saveFeeds_def collectNew_take attempted_postAll
        attempted_append split: list.splits)
qed

lemma checkFeed_entry:
  assumes "client s" "getFeed s d u = Some fi" "active fi" "parseURL env u = Some feed"
  shows "getFeed (fst (checkFeed env d u s)) d u =
           Some (fi\<lparr>title := feed_title feed, description := feed_description feed,
                    lastPostId := (if items feed = [] then lastPostId fi else guid (hd (items feed))),
                    lastChecked := Some (now env)\<rparr>)"
proof -
  from getFeed_cases[OF assms(2)] obtain cf
    where cf: "map_of (feeds s) d = Some cf" "map_of cf u = Some fi" by blast
  show ?thesis
    using assms(1,3,4) cf
    by (auto simp: checkFeed_def Let_def saveFeeds_def setFeed_def getFeed_def update_conv'
        split: list.splits)
qed

lemma checkFeed_fst:
  assumes "client s" "getFeed s d u = Some fi" "active fi" "parseURL env u = Some feed"
  shows "fst (checkFeed env d u s) =
           fst (saveFeeds env (setFeed d u
              (fi\<lparr>title := feed_title feed, description := feed_description feed,
                   lastPostId := (if items feed = [] then lastPostId fi else guid (hd (items feed))),
                   lastChecked := Some (now env)\<rparr>) s))"
proof -
  from getFeed_cases[OF assms(2)] obtain cf
    where cf: "map_of (feeds s) d = Some cf" "map_of cf u = Some fi" by blast
  show ?thesis
    using assms(1,3,4) cf
    by (cases fi) (auto simp: checkFeed_def Let_def saveFeeds_def split: list.splits)
qed

lemma checkFeed_parse_failed:
  "parseURL env u = None \<Longrightarrow> fst (checkFeed env d u s) = s \<and> attempted (snd (checkFeed env d u s)) = []"
  by (auto simp: checkFeed_def split: option.splits)

lemma checkFeed_client:
  assumes "client s" "getFeed s d u = Some fi" "active fi" "parseURL env u = Some feed"
  shows "client (fst (checkFeed env d u s))"
  unfolding checkFeed_fst[OF assms] using assms(1)
  by (simp add: saveFeeds_def setFeed_def split: option.splits)

lemma take_takeWhile_long:
  "n \<le> length (takeWhile P xs) \<Longrightarrow> take n (takeWhile P xs) = take n xs"
proof -
  assume n: "n \<le> length (takeWhile P xs)"
  have "take n xs = take n (takeWhile P xs @ dropWhile P xs)" by simp
  also have "\<dots> = take n (takeWhile P xs)" using n by (simp del: takeWhile_dropWhile_id)
  finally show ?thesis by simp
qed

lemma length_takeWhile_mono:
  "(\<And>x. P x \<Longrightarrow> Q x) \<Longrightarrow> length (takeWhile P xs) \<le> length (takeWhile Q xs)"
  by (induction xs) auto

lemma set_take_takeWhile_subset: "set (take n (takeWhile P xs)) \<subseteq> set (take n xs)"
proof -
  have "take n (takeWhile P xs) = take (min n (length (takeWhile P xs))) xs"
    by (subst takeWhile_eq_take) (simp add: min.commute)
  then show ?thesis by (simp add: set_take_subset_set_take)
qed

lemma later_ticks_leave_out:
  assumes "left_out_behind u w L envs"
    and "client s" "getFeed s d u = Some fi" "active fi" "lastPostId fi = w"
  shows "guid ` set (attempted (snd (ticks envs d u s))) \<inter> set L = {}"
  using assms
proof (induction envs arbitrary: s fi w)
  case Nil
  then show ?case by simp
next
  case (Cons env envs)
  show ?case
  proof (cases "parseURL env u")
    case None
    with Cons.prems(1) have g: "left_out_behind u w L envs" by simp
    from checkFeed_parse_failed[OF None, of d s]
    have st: "fst (checkFeed env d u s) = s" "attempted (snd (checkFeed env d u s)) = []"
      by simp_all
    have "guid ` set (attempted (snd (ticks envs d u s))) \<inter> set L = {}"
      by (rule Cons.IH[OF g Cons.prems(2,3,4,5)])
    with st show ?thesis by (simp add: split_beta attempted_append)
  next
    case (Some feed)
    let ?s1 = "fst (checkFeed env d u s)"
    let ?P = "\<lambda>i. \<not> (truthy (lastPostId fi) \<and> guid i = lastPostId fi)"
    have c1: "client ?s1" by (rule checkFeed_client[OF Cons.prems(2,3,4) Some])
    let ?fi1 = "fi\<lparr>title := feed_title feed, description := feed_description feed,
                    lastPostId := (if items feed = [] then lastPostId fi else guid (hd (items feed))),
                    lastChecked := Some (now env)\<rparr>"
    have e1: "getFeed ?s1 d u = Some ?fi1" by (rule checkFeed_entry[OF Cons.prems(2,3,4) Some])
    have a1: "active ?fi1" using Cons.prems(4) by simp
    have att: "attempted (snd (checkFeed env d u s)) = rev (take 5 (takeWhile ?P (items feed)))"
      by (rule checkFeed_attempted[OF Cons.prems(2,3,4) Some])
    show ?thesis
    proof (cases "items feed = []")
      case True
      with Cons.prems(1) Some have g: "left_out_behind u w L envs" by simp
      have l1: "lastPostId ?fi1 = w" using True Cons.prems(5) by simp
      have "guid ` set (attempted (snd (ticks envs d u ?s1))) \<inter> set L = {}"
        by (rule Cons.IH[OF g c1 e1 a1 l1])
      with att True show ?thesis by (simp add: split_beta attempted_append)
    next
      case False
      with Cons.prems(1) Some
      have alt: "(truthy w
                  \<and> list_all (\<lambda>i. guid i \<notin> set L) (takeWhile (\<lambda>i. guid i \<noteq> w) (items feed)))
                 \<or> list_all (\<lambda>i. guid i \<notin> set L) (take 5 (items feed))"
        and g: "left_out_behind u (guid (hd (items feed))) L envs"
        by simp_all
      have now: "guid ` set (attempted (snd (checkFeed env d u s))) \<inter> set L = {}"
        using alt
      proof
        assume b: "truthy w
                  \<and> list_all (\<lambda>i. guid i \<notin> set L) (takeWhile (\<lambda>i. guid i \<noteq> w) (items feed))"
        then have P: "?P = (\<lambda>i. guid i \<noteq> w)" using Cons.prems(5) by simp
        have "set (attempted (snd (checkFeed env d u s)))
                \<subseteq> set (takeWhile (\<lambda>i. guid i \<noteq> w) (items feed))"
          unfolding att P using set_take_subset by fastforce
        with b show ?thesis by (auto simp: list_all_iff)
      next
        assume f: "list_all (\<lambda>i. guid i \<notin> set L) (take 5 (items feed))"
        have "set (attempted (snd (checkFeed env d u s))) \<subseteq> set (take 5 (items feed))"
          unfolding att using set_take_takeWhile_subset by fastforce
        with f show ?thesis by (auto simp: list_all_iff)
      qed
      have l1: "lastPostId ?fi1 = guid (hd (items feed))" using False by simp
      have "guid ` set (attempted (snd (ticks envs d u ?s1))) \<inter> set L = {}"
        by (rule Cons.IH[OF g c1 e1 a1 l1])
      with now show ?thesis by (auto simp: split_beta attempted_append)
    qed
  qed
qed


lemma delivered_append: "delivered (xs @ ys) = delivered xs @ delivered ys"
  by (induction xs rule: delivered.induct) simp_all

lemma delivered_postAll:
  "delivered (postAll env c f n k xs) =
     map snd (filter (\<lambda>(j, i). channel_send env j c i = Posted) (zip [k ..< k + length xs] xs))"
proof (induction xs arbitrary: k)
  case Nil
  then show ?case by simp
next
  case (Cons x xs)
  have u: "[k ..< k + length (x # xs)] = k # [Suc k ..< Suc k + length xs]"
    by (subst upt_conv_Cons) simp_all
  show ?case
    unfolding u using Cons.IH[of "Suc k"]
    by (cases "channel_send env k c x") (simp_all add: postFeedItem_def)
qed

lemma checkFeed_events:
  assumes "client s" "getFeed s d u = Some fi" "active fi" "parseURL env u = Some feed"
  shows "snd (checkFeed env d u s) =
           Fetch u
           # postAll env d feed
               (length (take 5 (takeWhile (\<lambda>i. \<not> (truthy (lastPostId fi) \<and> guid i = lastPostId fi)) (items feed))))
               0
               (rev (take 5 (takeWhile (\<lambda>i. \<not> (truthy (lastPostId fi) \<and> guid i = lastPostId fi)) (items feed))))
           @ [if writeJson_ok env then Saved else SaveFailed]"
proof -
  from getFeed_cases[OF assms(2)] obtain cf
    where cf: "map_of (feeds s) d = Some cf" "map_of cf u = Some fi" by blast
  show ?thesis
    using assms(1,3,4) cf
    by (auto simp: checkFeed_def Let_def saveFeeds_def collectNew_take split: list.splits)
qed

lemma checkFeed_delivered:
  assumes "client s" "getFeed s d u = Some fi" "active fi" "parseURL env u = Some feed"
  shows "delivered (snd (checkFeed env d u s)) =
           map snd (filter (\<lambda>(k, i). channel_send env k d i = Posted)
             (zip [0 ..< length (take 5 (takeWhile (\<lambda>i. \<not> (truthy (lastPostId fi) \<and> guid i = lastPostId fi)) (items feed)))]
                  (rev (take 5 (takeWhile (\<lambda>i. \<not> (truthy (lastPostId fi) \<and> guid i = lastPostId fi)) (items feed))))))"
  unfolding checkFeed_events[OF assms]
  by (simp add: delivered_append delivered_postAll)

lemma mk_getFeed: "getFeed (mkManager cap [(''u'', fi)]) ''c'' ''u'' = Some fi"
  by (simp add: getFeed_def mkManager_def)


subsection \<open>Association lists as maps\<close>

lemma set_update_subset: "set (AList.update k v al) \<subseteq> insert (k, v) (set al)"
  by (induction al) auto

lemma set_delete_subset: "set (AList.delete k al) \<subseteq> set al"
  by (auto simp: AList.delete_eq)

lemma length_update_present:
  "map_of al k = Some v \<Longrightarrow> length (AList.update k v' al) = length al"
  by (induction al) (auto split: if_splits)

lemma length_update_absent:
  "map_of al k = None \<Longrightarrow> length (AList.update k v' al) = Suc (length al)"
  by (induction al) (auto split: if_splits)

lemma list_all_update:
  "list_all P al \<Longrightarrow> P (k, v) \<Longrightarrow> list_all P (AList.update k v al)"
  using set_update_subset[of k v al] by (auto simp: list_all_iff)

lemma list_all_delete: "list_all P al \<Longrightarrow> list_all P (AList.delete k al)"
  using set_delete_subset[of k al] by (auto simp: list_all_iff)

lemma list_all_lookup: "list_all P al \<Longrightarrow> map_of al k = Some v \<Longrightarrow> P (k, v)"
  by (auto simp: list_all_iff dest: map_of_SomeD)

lemma stopFeedCheck_frame [simp]:
  "feeds (stopFeedCheck d u s) = feeds s" "config (stopFeedCheck d u s) = config s"
  "feedsFile (stopFeedCheck d u s) = feedsFile s" "client (stopFeedCheck d u s) = client s"
  by (simp_all add: stopFeedCheck_def)

lemma startFeedCheck_frame [simp]:
  "feeds (startFeedCheck env d u s) = feeds s" "config (startFeedCheck env d u s) = config s"
  "feedsFile (startFeedCheck env d u s) = feedsFile s" "client (startFeedCheck env d u s) = client s"
  by (simp_all add: startFeedCheck_def Let_def getFeed_def split: option.splits)

text \<open>What addFeed does to the registry, case by case.\<close>

lemma addFeed_invalid:
  "parseURL env u = None \<Longrightarrow> addFeed env d u ival s = (Inl InvalidFeed, s, [Fetch u])"
  by (simp add: addFeed_def validateFeed_def)

lemma addFeed_limit:
  "parseURL env u = Some feed \<Longrightarrow> map_of (feeds s) d = Some cf \<Longrightarrow>
   maxFeedsPerChannel (config s) \<le> int (length cf) \<Longrightarrow>
   addFeed env d u ival s = (Inl LimitExceeded, s, [Fetch u])"
  by (simp add: addFeed_def validateFeed_def has_def Let_def)

lemma addFeed_limit_new:
  "parseURL env u = Some feed \<Longrightarrow> map_of (feeds s) d = None \<Longrightarrow>
   maxFeedsPerChannel (config s) \<le> 0 \<Longrightarrow>
   addFeed env d u ival s = (Inl LimitExceeded, s\<lparr>feeds := AList.update d [] (feeds s)\<rparr>, [Fetch u])"
  by (simp add: addFeed_def validateFeed_def has_def Let_def update_conv')

lemma addFeed_exists:
  "parseURL env u = Some feed \<Longrightarrow> map_of (feeds s) d = Some cf \<Longrightarrow>
   int (length cf) < maxFeedsPerChannel (config s) \<Longrightarrow> map_of cf u = Some fi \<Longrightarrow>
   addFeed env d u ival s = (Inl AlreadyExists, s, [Fetch u])"
  by (simp add: addFeed_def validateFeed_def has_def Let_def)

lemma addFeed_insert:
  assumes "parseURL env u = Some feed"
    and "cf = (case map_of (feeds s) d of None \<Rightarrow> [] | Some m \<Rightarrow> m)"
    and "int (length cf) < maxFeedsPerChannel (config s)" "map_of cf u = None"
    and "fd = \<lparr> url = Some u, interval = or_int ival (defaultInterval (config s)),
                 lastChecked = None, lastPostId = None, active = True,
                 title = Some (or_str (feed_title feed) ''Unknown Feed''),
                 description = Some (or_str (feed_description feed) '''') \<rparr>"
  shows "feeds (fst (snd (addFeed env d u ival s))) = AList.update d (AList.update u fd cf) (feeds s)"
    and "fst (addFeed env d u ival s) = (if writeJson_ok env then Inr fd else Inl AddFailed)"
proof -
  show "feeds (fst (snd (addFeed env d u ival s))) = AList.update d (AList.update u fd cf) (feeds s)"
    using assms
    by (cases "map_of (feeds s) d")
       (simp_all add: addFeed_def validateFeed_def has_def Let_def update_conv' saveFeeds_def)
  show "fst (addFeed env d u ival s) = (if writeJson_ok env then Inr fd else Inl AddFailed)"
    using assms
    by (cases "map_of (feeds s) d")
       (simp_all add: addFeed_def validateFeed_def has_def Let_def update_conv' saveFeeds_def)
qed

lemma addFeed_feeds:
  "feeds (fst (snd (addFeed env d u ival s))) = feeds s
   \<or> (map_of (feeds s) d = None
       \<and> maxFeedsPerChannel (config s) \<le> 0
       \<and> feeds (fst (snd (addFeed env d u ival s))) = AList.update d [] (feeds s))
   \<or> (\<exists>cf fd. cf = (case map_of (feeds s) d of None \<Rightarrow> [] | Some m \<Rightarrow> m)
         \<and> int (length cf) < maxFeedsPerChannel (config s)
         \<and> map_of cf u = None
         \<and> feeds (fst (snd (addFeed env d u ival s))) = AList.update d (AList.update u fd cf) (feeds s))"
proof (cases "parseURL env u")
  case None
  then show ?thesis by (simp add: addFeed_invalid)
next
  case (Some feed)
  let ?cf = "case map_of (feeds s) d of None \<Rightarrow> [] | Some m \<Rightarrow> m"
  show ?thesis
  proof (cases "maxFeedsPerChannel (config s) \<le> int (length ?cf)")
    case True
    then show ?thesis
      using Some by (cases "map_of (feeds s) d") (simp_all add: addFeed_limit addFeed_limit_new)
  next
    case lt: False
    then have lt': "int (length ?cf) < maxFeedsPerChannel (config s)" by simp
    show ?thesis
    proof (cases "map_of ?cf u")
      case None
      have "feeds (fst (snd (addFeed env d u ival s))) =
              AList.update d (AList.update u
                 \<lparr> url = Some u, interval = or_int ival (defaultInterval (config s)),
                   lastChecked = None, lastPostId = None, active = True,
                   title = Some (or_str (feed_title feed) ''Unknown Feed''),
                   description = Some (or_str (feed_description feed) '''') \<rparr> ?cf) (feeds s)"
        by (rule addFeed_insert(1)[OF Some refl lt' None refl])
      then show ?thesis using lt' None by blast
    next
      case fi: (Some fi)
      then obtain cf where cf: "map_of (feeds s) d = Some cf"
        by (cases "map_of (feeds s) d") simp_all
      with fi lt' Some show ?thesis
        by (simp add: addFeed_exists)
    qed
  qed
qed

lemma addFeed_config [simp]: "config (fst (snd (addFeed env d u ival s))) = config s"
  by (simp add: addFeed_def validateFeed_def Let_def saveFeeds_def split: option.splits)

lemma removeFeed_config [simp]: "config (fst (snd (removeFeed env d u s))) = config s"
  by (simp add: removeFeed_def Let_def saveFeeds_def split: option.splits)

lemma removeFeed_feeds:
  "feeds (fst (snd (removeFeed env d u s))) = feeds s
   \<or> (\<exists>cf. map_of (feeds s) d = Some cf \<and> map_of cf u \<noteq> None
        \<and> (if AList.delete u cf = []
            then feeds (fst (snd (removeFeed env d u s))) = AList.delete d (feeds s)
            else feeds (fst (snd (removeFeed env d u s))) = AList.update d (AList.delete u cf) (feeds s)))"
proof (cases "map_of (feeds s) d")
  case None
  then show ?thesis by (simp add: removeFeed_def)
next
  case (Some cf)
  show ?thesis
  proof (cases "map_of cf u")
    case None
    with Some show ?thesis by (simp add: removeFeed_def)
  next
    case fi: (Some fi)
    have "if AList.delete u cf = []
            then feeds (fst (snd (removeFeed env d u s))) = AList.delete d (feeds s)
            else feeds (fst (snd (removeFeed env d u s))) = AList.update d (AList.delete u cf) (feeds s)"
      using Some fi by (simp add: removeFeed_def Let_def saveFeeds_def)
    with Some fi show ?thesis by blast
  qed
qed

lemma checkFeed_unchanged:
  "\<not> (client s \<and> (\<exists>fi. getFeed s d u = Some fi \<and> active fi) \<and> parseURL env u \<noteq> None) \<Longrightarrow>
   fst (checkFeed env d u s) = s"
  by (auto simp: checkFeed_def getFeed_def split: option.splits)

lemma checkFeed_config [simp]: "config (fst (checkFeed env d u s)) = config s"
proof (cases "client s \<and> (\<exists>fi. getFeed s d u = Some fi \<and> active fi) \<and> parseURL env u \<noteq> None")
  case True
  then obtain fi feed where h: "client s" "getFeed s d u = Some fi" "active fi" "parseURL env u = Some feed"
    by auto
  show ?thesis unfolding checkFeed_fst[OF h]
    by (simp add: saveFeeds_def setFeed_def split: option.splits)
next
  case False
  then show ?thesis by (simp add: checkFeed_unchanged)
qed

lemma checkFeed_feeds:
  "feeds (fst (checkFeed env d u s)) = feeds s
   \<or> (\<exists>cf fi fi'. map_of (feeds s) d = Some cf \<and> map_of cf u = Some fi
        \<and> feeds (fst (checkFeed env d u s)) = AList.update d (AList.update u fi' cf) (feeds s))"
proof (cases "client s \<and> (\<exists>fi. getFeed s d u = Some fi \<and> active fi) \<and> parseURL env u \<noteq> None")
  case True
  then obtain fi feed where h: "client s" "getFeed s d u = Some fi" "active fi" "parseURL env u = Some feed"
    by auto
  from getFeed_cases[OF h(2)] obtain cf
    where cf: "map_of (feeds s) d = Some cf" "map_of cf u = Some fi" by blast
  have "\<exists>fi'. feeds (fst (checkFeed env d u s)) = AList.update d (AList.update u fi' cf) (feeds s)"
    unfolding checkFeed_fst[OF h] using cf
    by (auto simp: saveFeeds_def setFeed_def)
  with cf show ?thesis by blast
next
  case False
  then show ?thesis by (simp add: checkFeed_unchanged)
qed


lemma addFeed_keeps_capacity:
  assumes "capacity_ok s" "0 \<le> maxFeedsPerChannel (config s)"
  shows "capacity_ok (fst (snd (addFeed env d u ival s)))"
proof -
  let ?P = "\<lambda>(channelId, channelFeeds). int (length channelFeeds) \<le> maxFeedsPerChannel (config s)"
  have inv: "list_all ?P (feeds s)" using assms(1) by (simp add: capacity_ok_def)
  from addFeed_feeds[of env d u ival s] show ?thesis
  proof (elim disjE exE conjE)
    assume "feeds (fst (snd (addFeed env d u ival s))) = feeds s"
    with inv show ?thesis by (simp add: capacity_ok_def)
  next
    assume "feeds (fst (snd (addFeed env d u ival s))) = AList.update d [] (feeds s)"
    moreover have "list_all ?P (AList.update d [] (feeds s))"
      using inv assms(2) by (intro list_all_update) simp_all
    ultimately show ?thesis by (simp add: capacity_ok_def)
  next
    fix cf fd
    assume lt: "int (length cf) < maxFeedsPerChannel (config s)" and none: "map_of cf u = None"
      and eq: "feeds (fst (snd (addFeed env d u ival s))) = AList.update d (AList.update u fd cf) (feeds s)"
    have "list_all ?P (AList.update d (AList.update u fd cf) (feeds s))"
      using inv lt length_update_absent[OF none, of fd] by (intro list_all_update) simp_all
    with eq show ?thesis by (simp add: capacity_ok_def)
  qed
qed

lemma removeFeed_keeps_capacity:
  assumes "capacity_ok s"
  shows "capacity_ok (fst (snd (removeFeed env d u s)))"
proof -
  let ?P = "\<lambda>(channelId, channelFeeds). int (length channelFeeds) \<le> maxFeedsPerChannel (config s)"
  have inv: "list_all ?P (feeds s)" using assms(1) by (simp add: capacity_ok_def)
  from removeFeed_feeds[of env d u s] show ?thesis
  proof (elim disjE exE conjE)
    assume "feeds (fst (snd (removeFeed env d u s))) = feeds s"
    with inv show ?thesis by (simp add: capacity_ok_def)
  next
    fix cf
    assume cf: "map_of (feeds s) d = Some cf"
      and eq: "if AList.delete u cf = []
            then feeds (fst (snd (removeFeed env d u s))) = AList.delete d (feeds s)
            else feeds (fst (snd (removeFeed env d u s))) = AList.update d (AList.delete u cf) (feeds s)"
    have "?P (d, cf)" by (rule list_all_lookup[OF inv cf])
    then have "?P (d, AList.delete u cf)" using length_delete_le[of u cf] by simp
    then have "list_all ?P (AList.update d (AList.delete u cf) (feeds s))"
      using inv by (intro list_all_update)
    moreover have "list_all ?P (AList.delete d (feeds s))" using inv by (rule list_all_delete)
    ultimately show ?thesis using eq by (auto simp: capacity_ok_def split: if_splits)
  qed
qed

lemma checkFeed_keeps_capacity:
  assumes "capacity_ok s"
  shows "capacity_ok (fst (checkFeed env d u s))"
proof -
  let ?P = "\<lambda>(channelId, channelFeeds). int (length channelFeeds) \<le> maxFeedsPerChannel (config s)"
  have inv: "list_all ?P (feeds s)" using assms(1) by (simp add: capacity_ok_def)
  from checkFeed_feeds[of env d u s] show ?thesis
  proof (elim disjE exE conjE)
    assume "feeds (fst (checkFeed env d u s)) = feeds s"
    with inv show ?thesis by (simp add: capacity_ok_def)
  next
    fix cf fi fi'
    assume cf: "map_of (feeds s) d = Some cf" and u: "map_of cf u = Some fi"
      and eq: "feeds (fst (checkFeed env d u s)) = AList.update d (AList.update u fi' cf) (feeds s)"
    have "?P (d, cf)" by (rule list_all_lookup[OF inv cf])
    then have "?P (d, AList.update u fi' cf)" using length_update_present[OF u, of fi'] by simp
    then have "list_all ?P (AList.update d (AList.update u fi' cf) (feeds s))"
      using inv by (intro list_all_update)
    with eq show ?thesis by (simp add: capacity_ok_def)
  qed
qed

subsection \<open>Loading what was saved\<close>

lemma update_absent_append:
  "k \<notin> fst ` set al \<Longrightarrow> AList.update k v al = al @ [(k, v)]"
  by (induction al) auto

lemma fold_update_fresh:
  "distinct (map fst kvs) \<Longrightarrow> fst ` set kvs \<inter> fst ` set acc = {} \<Longrightarrow>
   fold (\<lambda>(k, v). AList.update k (f v)) kvs acc = acc @ map (\<lambda>(k, v). (k, f v)) kvs"
proof (induction kvs arbitrary: acc)
  case Nil
  then show ?case by simp
next
  case (Cons kv kvs)
  obtain k v where kv: "kv = (k, v)" by (cases kv)
  have absent: "k \<notin> fst ` set acc" using Cons.prems(2) kv by auto
  have d: "distinct (map fst kvs)" using Cons.prems(1) by simp
  have disj: "fst ` set kvs \<inter> fst ` set (acc @ [(k, f v)]) = {}"
    using Cons.prems kv by auto
  show ?case
    using Cons.IH[OF d disj] kv by (simp add: update_absent_append[OF absent])
qed

lemma loadChannel_fresh:
  assumes "d \<notin> fst ` set fs" "distinct (map fst cfs)"
  shows "loadChannel cfg (d, cfs) fs = fs @ [(d, map (\<lambda>(u, j). (u, loadInfo cfg j)) cfs)]"
proof -
  have none: "map_of fs d = None" using assms(1) by (simp add: map_of_eq_None_iff)
  have inner: "fold (\<lambda>(feedUrl, feedInfo). AList.update feedUrl (loadInfo cfg feedInfo)) cfs []
                 = map (\<lambda>(u, j). (u, loadInfo cfg j)) cfs"
    using fold_update_fresh[OF assms(2), of "[]" "loadInfo cfg"] by simp
  have look: "map_of (AList.update d [] fs) d = Some []" by (simp add: update_conv')
  have "loadChannel cfg (d, cfs) fs
          = AList.update d (map (\<lambda>(u, j). (u, loadInfo cfg j)) cfs) (AList.update d [] fs)"
    using none look inner by (simp add: loadChannel_def has_def Let_def)
  also have "\<dots> = AList.update d (map (\<lambda>(u, j). (u, loadInfo cfg j)) cfs) fs" by simp
  also have "\<dots> = fs @ [(d, map (\<lambda>(u, j). (u, loadInfo cfg j)) cfs)]"
    by (rule update_absent_append[OF assms(1)])
  finally show ?thesis .
qed

lemma fold_loadChannel_fresh:
  "distinct_keys data \<Longrightarrow> fst ` set data \<inter> fst ` set acc = {} \<Longrightarrow>
   fold (loadChannel cfg) data acc
     = acc @ map (\<lambda>(d, cfs). (d, map (\<lambda>(u, j). (u, loadInfo cfg j)) cfs)) data"
proof (induction data arbitrary: acc)
  case Nil
  then show ?case by simp
next
  case (Cons e data)
  obtain d cfs where e: "e = (d, cfs)" by (cases e)
  have absent: "d \<notin> fst ` set acc" using Cons.prems(2) e by auto
  have dc: "distinct (map fst cfs)" using Cons.prems(1) e by (simp add: distinct_keys_def)
  have dk: "distinct_keys data" using Cons.prems(1) by (simp add: distinct_keys_def)
  let ?acc' = "acc @ [(d, map (\<lambda>(u, j). (u, loadInfo cfg j)) cfs)]"
  have disj: "fst ` set data \<inter> fst ` set ?acc' = {}"
    using Cons.prems e by (auto simp: distinct_keys_def)
  show ?case
    using Cons.IH[OF dk disj] e by (simp add: loadChannel_fresh[OF absent dc])
qed

lemma distinct_keys_feedData_of: "distinct_keys fs \<Longrightarrow> distinct_keys (feedData_of fs)"
  by (auto simp: distinct_keys_def feedData_of_def list_all_iff comp_def split_beta)

lemma load_saved_fresh:
  assumes "distinct_keys fs"
  shows "fold (loadChannel cfg) (feedData_of fs) []
           = map (\<lambda>(d, cf). (d, map (\<lambda>(u, fi). (u, loadInfo cfg (storeInfo fi))) cf)) fs"
  using fold_loadChannel_fresh[OF distinct_keys_feedData_of[OF assms], of "[]" cfg]
  by (simp add: feedData_of_def comp_def split_beta)

lemma loadInfo_storeInfo:
  "loadInfo cfg (storeInfo fi) =
     fi\<lparr>interval := (if interval fi = 0 then defaultInterval cfg else interval fi),
        lastPostId := (if lastPostId fi = Some [] then None else lastPostId fi),
        title := Some (or_str (title fi) ''Unknown Feed''),
        description := Some (or_str (description fi) [])\<rparr>"
  by (cases fi) (auto simp: loadInfo_def storeInfo_def or_int_def truthy_def split: option.splits)

lemma getChannelFeeds_length:
  "length (getChannelFeeds s d) = (case map_of (feeds s) d of None \<Rightarrow> 0 | Some cf \<Rightarrow> length cf)"
  by (simp add: getChannelFeeds_def split: option.splits)


lemma no_empty_channel_preserved:
  assumes "no_empty_channel s"
  shows "1 \<le> maxFeedsPerChannel (config s) \<Longrightarrow> no_empty_channel (fst (snd (addFeed env d u ival s)))"
    and "no_empty_channel (fst (snd (removeFeed env d u s)))"
    and "no_empty_channel (fst (checkFeed env d u s))"
proof -
  let ?P = "\<lambda>(channelId, channelFeeds :: (string \<times> FeedInfo) list). channelFeeds \<noteq> []"
  have inv: "list_all ?P (feeds s)" using assms by (simp add: no_empty_channel_def)
  { assume cap: "1 \<le> maxFeedsPerChannel (config s)"
    from addFeed_feeds[of env d u ival s] cap
    have "feeds (fst (snd (addFeed env d u ival s))) = feeds s
        \<or> (\<exists>cf fd. feeds (fst (snd (addFeed env d u ival s))) = AList.update d (AList.update u fd cf) (feeds s))"
      by auto
    then show "no_empty_channel (fst (snd (addFeed env d u ival s)))"
      using inv by (auto simp: no_empty_channel_def intro!: list_all_update) }
  show "no_empty_channel (fst (snd (removeFeed env d u s)))"
    using removeFeed_feeds[of env d u s]
  proof (elim disjE exE conjE)
    assume "feeds (fst (snd (removeFeed env d u s))) = feeds s"
    with inv show ?thesis by (simp add: no_empty_channel_def)
  next
    fix cf
    assume eq: "if AList.delete u cf = []
            then feeds (fst (snd (removeFeed env d u s))) = AList.delete d (feeds s)
            else feeds (fst (snd (removeFeed env d u s))) = AList.update d (AList.delete u cf) (feeds s)"
    show ?thesis
    proof (cases "AList.delete u cf = []")
      case True
      with eq inv show ?thesis by (simp add: no_empty_channel_def list_all_delete)
    next
      case False
      with eq inv show ?thesis by (simp add: no_empty_channel_def list_all_update)
    qed
  qed
  from checkFeed_feeds[of env d u s]
  show "no_empty_channel (fst (checkFeed env d u s))"
    using inv by (auto simp: no_empty_channel_def intro!: list_all_update)
qed

lemma no_empty_channel_statistics:
  "no_empty_channel s \<Longrightarrow>
   totalChannels (getStatistics s) = length (filter (\<lambda>(d, cf). cf \<noteq> []) (feeds s))"
  by (simp add: no_empty_channel_def getStatistics_def list_all_iff)

lemma getChannelFeeds_unknown: "map_of (feeds s) d = None \<Longrightarrow> getChannelFeeds s d = []"
  by (simp add: getChannelFeeds_def)

lemma fold_count:
  "fold (\<lambda>(channelId, channelFeeds) count. count + length channelFeeds) xs a
     = a + sum_list (map (\<lambda>(c, cf). length cf) xs)"
  by (induction xs arbitrary: a) (auto simp: split_beta)

lemma getTotalFeedCount_sum:
  "getTotalFeedCount s = sum_list (map (\<lambda>(c, cf). length cf) (feeds s))"
  by (simp add: getTotalFeedCount_def fold_count)

lemma initialize_saved:
  assumes "distinct_keys (feeds s)" "writeJson_ok env"
  shows "feeds (initialize cfg (feedsFile (fst (saveFeeds env s))))
           = map (\<lambda>(d, cf). (d, map (\<lambda>(u, fi). (u, loadInfo (config (constructor Missing)) (storeInfo fi))) cf))
                 (feeds s)"
  using assms load_saved_fresh[OF assms(1), of "config (constructor Missing)"]
  by (simp add: initialize_def loadFeeds_def saveFeeds_def constructor_def)

lemma addFeed_at_cap:
  assumes "maxFeedsPerChannel (config s) \<le> int (length (getChannelFeeds s d))"
    and "parseURL env u = Some feed"
  shows "fst (addFeed env d u ival s) = Inl LimitExceeded"
    and "getChannelFeeds (fst (snd (addFeed env d u ival s))) d' = getChannelFeeds s d'"
    and "getTotalFeedCount (fst (snd (addFeed env d u ival s))) = getTotalFeedCount s"
proof -
  show "fst (addFeed env d u ival s) = Inl LimitExceeded"
    using assms
    by (cases "map_of (feeds s) d")
       (simp_all add: getChannelFeeds_length addFeed_limit addFeed_limit_new)
  show "getChannelFeeds (fst (snd (addFeed env d u ival s))) d' = getChannelFeeds s d'"
    using assms
    by (cases "map_of (feeds s) d")
       (simp_all add: getChannelFeeds_length addFeed_limit addFeed_limit_new
          getChannelFeeds_def update_conv')
  show "getTotalFeedCount (fst (snd (addFeed env d u ival s))) = getTotalFeedCount s"
  proof (cases "map_of (feeds s) d")
    case None
    then have "d \<notin> fst ` set (feeds s)" by (simp add: map_of_eq_None_iff)
    then have "AList.update d [] (feeds s) = feeds s @ [(d, [])]" by (rule update_absent_append)
    with None assms show ?thesis
      by (simp add: getChannelFeeds_length addFeed_limit_new getTotalFeedCount_sum)
  next
    case (Some cf)
    with assms show ?thesis by (simp add: getChannelFeeds_length addFeed_limit)
  qed
qed

lemma capacity_listing:
  "capacity_ok s \<Longrightarrow> 0 \<le> maxFeedsPerChannel (config s) \<Longrightarrow>
   int (length (getChannelFeeds s d)) \<le> maxFeedsPerChannel (config s)"
  by (cases "map_of (feeds s) d")
     (auto simp: getChannelFeeds_length capacity_ok_def dest: list_all_lookup)


lemma initialize_saved_capacity:
  assumes "capacity_ok s" "distinct_keys (feeds s)" "writeJson_ok env"
    and "maxFeedsPerChannel (config s) \<le> maxFeedsPerChannel cfg"
  shows "capacity_ok (initialize cfg (feedsFile (fst (saveFeeds env s))))"
proof -
  have "list_all (\<lambda>(channelId, channelFeeds). int (length channelFeeds) \<le> maxFeedsPerChannel cfg)
          (feeds s)"
    using assms(1,4) by (auto simp: capacity_ok_def list_all_iff)
  then show ?thesis
    using initialize_saved[OF assms(2,3), of cfg]
    by (simp add: capacity_ok_def initialize_def list_all_iff split_beta)
qed

lemma addFeed_at_cap_result:
  assumes "maxFeedsPerChannel (config s) \<le> int (length (getChannelFeeds s d))"
  shows "fst (addFeed env d u ival s) = Inl (if parseURL env u = None then InvalidFeed else LimitExceeded)"
    and "getChannelFeeds (fst (snd (addFeed env d u ival s))) d' = getChannelFeeds s d'"
    and "getTotalFeedCount (fst (snd (addFeed env d u ival s))) = getTotalFeedCount s"
proof -
  show "fst (addFeed env d u ival s) = Inl (if parseURL env u = None then InvalidFeed else LimitExceeded)"
    using addFeed_at_cap(1)[OF assms] by (cases "parseURL env u") (simp_all add: addFeed_invalid)
  show "getChannelFeeds (fst (snd (addFeed env d u ival s))) d' = getChannelFeeds s d'"
    using addFeed_at_cap(2)[OF assms] by (cases "parseURL env u") (simp_all add: addFeed_invalid)
  show "getTotalFeedCount (fst (snd (addFeed env d u ival s))) = getTotalFeedCount s"
    using addFeed_at_cap(3)[OF assms] by (cases "parseURL env u") (simp_all add: addFeed_invalid)
qed


subsection \<open>Distinct keys are kept\<close>

lemma distinct_keys_update:
  "distinct_keys fs \<Longrightarrow> distinct (map fst cf) \<Longrightarrow> distinct_keys (AList.update d cf fs)"
  by (auto simp: distinct_keys_def distinct_update intro!: list_all_update)

lemma distinct_keys_delete: "distinct_keys fs \<Longrightarrow> distinct_keys (AList.delete d fs)"
  by (auto simp: distinct_keys_def distinct_delete intro!: list_all_delete)

lemma distinct_keys_lookup:
  "distinct_keys fs \<Longrightarrow> map_of fs d = Some cf \<Longrightarrow> distinct (map fst cf)"
  by (auto simp: distinct_keys_def dest: list_all_lookup)

lemma distinct_keys_kept:
  assumes "distinct_keys (feeds s)"
  shows "distinct_keys (feeds (fst (snd (addFeed env d u ival s))))"
    and "distinct_keys (feeds (fst (snd (removeFeed env d u s))))"
    and "distinct_keys (feeds (fst (checkFeed env d u s)))"
proof -
  show "distinct_keys (feeds (fst (snd (addFeed env d u ival s))))"
    using addFeed_feeds[of env d u ival s]
  proof (elim disjE exE conjE)
    assume "feeds (fst (snd (addFeed env d u ival s))) = feeds s"
    with assms show ?thesis by simp
  next
    assume "feeds (fst (snd (addFeed env d u ival s))) = AList.update d [] (feeds s)"
    with assms show ?thesis by (simp add: distinct_keys_update)
  next
    fix cf fd
    assume cf: "cf = (case map_of (feeds s) d of None \<Rightarrow> [] | Some m \<Rightarrow> m)"
      and eq: "feeds (fst (snd (addFeed env d u ival s))) = AList.update d (AList.update u fd cf) (feeds s)"
    have "distinct (map fst cf)"
      using cf assms by (cases "map_of (feeds s) d") (auto dest: distinct_keys_lookup)
    then have "distinct (map fst (AList.update u fd cf))" by (rule distinct_update)
    with eq assms show ?thesis by (simp add: distinct_keys_update)
  qed
  show "distinct_keys (feeds (fst (snd (removeFeed env d u s))))"
    using removeFeed_feeds[of env d u s]
  proof (elim disjE exE conjE)
    assume "feeds (fst (snd (removeFeed env d u s))) = feeds s"
    with assms show ?thesis by simp
  next
    fix cf
    assume cf: "map_of (feeds s) d = Some cf"
      and eq: "if AList.delete u cf = []
            then feeds (fst (snd (removeFeed env d u s))) = AList.delete d (feeds s)
            else feeds (fst (snd (removeFeed env d u s))) = AList.update d (AList.delete u cf) (feeds s)"
    have "distinct (map fst (AList.delete u cf))"
      using distinct_keys_lookup[OF assms cf] by (rule distinct_delete)
    with eq assms show ?thesis
      by (cases "AList.delete u cf = []") (simp_all add: distinct_keys_update distinct_keys_delete)
  qed
  show "distinct_keys (feeds (fst (checkFeed env d u s)))"
    using checkFeed_feeds[of env d u s]
  proof (elim disjE exE conjE)
    assume "feeds (fst (checkFeed env d u s)) = feeds s"
    with assms show ?thesis by simp
  next
    fix cf fi fi'
    assume cf: "map_of (feeds s) d = Some cf"
      and eq: "feeds (fst (checkFeed env d u s)) = AList.update d (AList.update u fi' cf) (feeds s)"
    have "distinct (map fst (AList.update u fi' cf))"
      using distinct_keys_lookup[OF assms cf] by (rule distinct_update)
    with eq assms show ?thesis by (simp add: distinct_keys_update)
  qed
qed

lemma distinct_keys_start:
  "distinct_keys (feeds (constructor file))"
  "distinct_keys data \<Longrightarrow> distinct_keys (feeds (initialize cfg (Json data)))"
  "distinct_keys (feeds (initialize cfg Missing))"
  "distinct_keys (feeds (initialize cfg Unreadable))"
proof -
  show "distinct_keys (feeds (constructor file))"
    by (simp add: constructor_def distinct_keys_def)
  show "distinct_keys (feeds (initialize cfg Missing))"
    by (simp add: initialize_def loadFeeds_def constructor_def distinct_keys_def)
  show "distinct_keys (feeds (initialize cfg Unreadable))"
    by (simp add: initialize_def loadFeeds_def constructor_def distinct_keys_def)
  assume d: "distinct_keys data"
  have "feeds (initialize cfg (Json data))
          = map (\<lambda>(d, cfs). (d, map (\<lambda>(u, j). (u, loadInfo (config (constructor Missing)) j)) cfs)) data"
    using fold_loadChannel_fresh[OF d, of "[]" "config (constructor Missing)"]
    by (simp add: initialize_def loadFeeds_def constructor_def)
  then show "distinct_keys (feeds (initialize cfg (Json data)))"
    using d by (auto simp: distinct_keys_def list_all_iff comp_def split_beta)
qed

subsection \<open>Loading into a registry that already has entries\<close>

lemma map_of_fold_update:
  "distinct (map fst kvs) \<Longrightarrow>
   map_of (fold (\<lambda>(k, v). AList.update k (f v)) kvs acc) x
     = (case map_of kvs x of None \<Rightarrow> map_of acc x | Some v \<Rightarrow> Some (f v))"
proof (induction kvs arbitrary: acc)
  case Nil
  then show ?case by simp
next
  case (Cons kv kvs)
  obtain k v where kv: "kv = (k, v)" by (cases kv)
  have d: "distinct (map fst kvs)" and nk: "map_of kvs k = None"
    using Cons.prems kv by (simp_all add: map_of_eq_None_iff)
  show ?case
    using Cons.IH[OF d, of "AList.update k (f v) acc"] kv nk
    by (simp add: update_conv' split: option.splits)
qed

lemma map_of_loadChannel:
  "map_of (loadChannel cfg (d, cfs) fs) x
     = (if x = d
        then Some (fold (\<lambda>(feedUrl, feedInfo). AList.update feedUrl (loadInfo cfg feedInfo)) cfs
                     (case map_of fs d of None \<Rightarrow> [] | Some m \<Rightarrow> m))
        else map_of fs x)"
  by (cases "map_of fs d") (simp_all add: loadChannel_def has_def Let_def update_conv')

lemma map_of_fold_loadChannel:
  "distinct (map fst data) \<Longrightarrow>
   map_of (fold (loadChannel cfg) data acc) x
     = (case map_of data x of
          None \<Rightarrow> map_of acc x
        | Some cfs \<Rightarrow>
            Some (fold (\<lambda>(feedUrl, feedInfo). AList.update feedUrl (loadInfo cfg feedInfo)) cfs
                    (case map_of acc x of None \<Rightarrow> [] | Some m \<Rightarrow> m)))"
proof (induction data arbitrary: acc)
  case Nil
  then show ?case by simp
next
  case (Cons e data)
  obtain d cfs where e: "e = (d, cfs)" by (cases e)
  have dd: "distinct (map fst data)" and nd: "map_of data d = None"
    using Cons.prems e by (simp_all add: map_of_eq_None_iff)
  show ?case
    using Cons.IH[OF dd, of "loadChannel cfg (d, cfs) acc"] e nd
    by (simp add: map_of_loadChannel split: option.splits)
qed

lemma map_of_feedData_of:
  "map_of (feedData_of fs) d
     = map_option (map (\<lambda>(feedUrl, feedInfo). (feedUrl, storeInfo feedInfo))) (map_of fs d)"
  by (simp add: feedData_of_def map_of_map)

lemma reload_entry:
  assumes "distinct_keys (feeds s)" "writeJson_ok env"
  shows "getFeed (loadFeeds (fst (saveFeeds env s))) d u
           = map_option (\<lambda>fi. loadInfo (config s) (storeInfo fi)) (getFeed s d u)"
    and "has (feeds (loadFeeds (fst (saveFeeds env s)))) d = has (feeds s) d"
proof -
  have dk: "distinct (map fst (feedData_of (feeds s)))"
    using distinct_keys_feedData_of[OF assms(1)] by (simp add: distinct_keys_def)
  have look: "map_of (feeds (loadFeeds (fst (saveFeeds env s)))) d
      = (case map_of (feeds s) d of
           None \<Rightarrow> None
         | Some cf \<Rightarrow>
            Some (fold (\<lambda>(feedUrl, feedInfo). AList.update feedUrl (loadInfo (config s) feedInfo))
                    (map (\<lambda>(feedUrl, feedInfo). (feedUrl, storeInfo feedInfo)) cf) cf))"
    using assms(2) map_of_fold_loadChannel[OF dk, of "config s" "feeds s" d]
    by (simp add: loadFeeds_def saveFeeds_def map_of_feedData_of split: option.splits)
  show "has (feeds (loadFeeds (fst (saveFeeds env s)))) d = has (feeds s) d"
    unfolding has_def look by (simp split: option.splits)
  show "getFeed (loadFeeds (fst (saveFeeds env s))) d u
           = map_option (\<lambda>fi. loadInfo (config s) (storeInfo fi)) (getFeed s d u)"
  proof (cases "map_of (feeds s) d")
    case None
    then show ?thesis unfolding getFeed_def look by simp
  next
    case (Some cf)
    have dc: "distinct (map fst (map (\<lambda>(feedUrl, feedInfo). (feedUrl, storeInfo feedInfo)) cf))"
      using distinct_keys_lookup[OF assms(1) Some] by (simp add: comp_def split_beta)
    show ?thesis
      unfolding getFeed_def look using Some
      by (simp add: map_of_fold_update[OF dc] map_of_map split: option.splits)
  qed
qed

section \<open>The poll\<close>

text \<open>
  C9. A feed entry whose \<open>active\<close> flag is false is not polled: \<open>checkFeed\<close> returns
  the manager (registry, jobs and the file on disk) exactly as it was and performs no
  outside call at all, so nothing is fetched, nothing is posted and nothing is saved.
\<close>

theorem checkFeed_inactive_noop:
  "getFeed s channelId feedUrl = Some feedInfo \<Longrightarrow> \<not> active feedInfo \<Longrightarrow>
   checkFeed env channelId feedUrl s = (s, [])"
  by (auto simp: checkFeed_def getFeed_def split: option.splits)

theorem checkFeed_inactive_noop_witness:
  "getFeed (mkManager 10 [(''u'', (mkInfo (Some ''a''))\<lparr>active := False\<rparr>)]) ''c'' ''u''
     = Some ((mkInfo (Some ''a''))\<lparr>active := False\<rparr>)
   \<and> \<not> active ((mkInfo (Some ''a''))\<lparr>active := False\<rparr>)
   \<and> checkFeed (mkEnv (Some (mkFeed [mkItem ''b'']))) ''c'' ''u''
         (mkManager 10 [(''u'', (mkInfo (Some ''a''))\<lparr>active := False\<rparr>)])
       = (mkManager 10 [(''u'', (mkInfo (Some ''a''))\<lparr>active := False\<rparr>)], [])"
proof -
  have h1: "getFeed (mkManager 10 [(''u'', (mkInfo (Some ''a''))\<lparr>active := False\<rparr>)]) ''c'' ''u''
     = Some ((mkInfo (Some ''a''))\<lparr>active := False\<rparr>)"
    by (simp add: getFeed_def mkManager_def)
  have h2: "\<not> active ((mkInfo (Some ''a''))\<lparr>active := False\<rparr>)" by simp
  from checkFeed_inactive_noop[OF h1 h2] h1 h2 show ?thesis by simp
qed


text \<open>
  C4, as the code has it. A poll whose fetch or parse fails changes nothing at all: the
  manager (watermark, \<open>lastChecked\<close>, cached title and description, jobs, file) is
  returned as it was, no item is posted and no save is attempted. The only outside call
  is the fetch itself.
\<close>

theorem checkFeed_fetch_failure:
  "parseURL env feedUrl = None \<Longrightarrow>
   fst (checkFeed env channelId feedUrl s) = s
   \<and> attempted (snd (checkFeed env channelId feedUrl s)) = []
   \<and> saves (snd (checkFeed env channelId feedUrl s)) = []"
  by (auto simp: checkFeed_def split: option.splits)


text \<open>Witness for C4: the stored feed with watermark \<open>a\<close>, polled while the fetch fails.\<close>

theorem checkFeed_fetch_failure_witness:
  "parseURL (mkEnv None) ''u'' = None
   \<and> fst (checkFeed (mkEnv None) ''c'' ''u'' (mkManager 10 [(''u'', mkInfo (Some ''a''))]))
       = mkManager 10 [(''u'', mkInfo (Some ''a''))]
   \<and> attempted (snd (checkFeed (mkEnv None) ''c'' ''u'' (mkManager 10 [(''u'', mkInfo (Some ''a''))]))) = []
   \<and> saves (snd (checkFeed (mkEnv None) ''c'' ''u'' (mkManager 10 [(''u'', mkInfo (Some ''a''))]))) = []"
proof -
  have h: "parseURL (mkEnv None) ''u'' = None" by (simp add: mkEnv_def)
  from checkFeed_fetch_failure[OF h] h show ?thesis by simp
qed


text \<open>
  C4 as claimed fails: the claim has \<open>lastChecked\<close> advance on a failed poll. Here the
  clock reads 1000, the fetch fails, and \<open>lastChecked\<close> is still absent afterwards.
\<close>

theorem checkFeed_fetch_failure_lastChecked_counterexample:
  "parseURL (mkEnv None) ''u'' = None
   \<and> now (mkEnv None) = 1000
   \<and> map_option lastChecked
        (getFeed (fst (checkFeed (mkEnv None) ''c'' ''u'' (mkManager 10 [(''u'', mkInfo (Some ''a''))])))
                 ''c'' ''u'') = Some None"
  by (simp add: checkFeed_def mkEnv_def mkManager_def mkInfo_def getFeed_def)


text \<open>
  C1 as claimed fails: the first poll of a feed without watermark is no silent baseline.
  With watermark absent and a document of two items, both items are posted, oldest
  first.
\<close>

theorem checkFeed_first_poll_counterexample:
  "lastPostId (mkInfo None) = None
   \<and> delivered (snd (checkFeed (mkEnv (Some (mkFeed [mkItem ''a'', mkItem ''b'']))) ''c'' ''u''
                        (mkManager 10 [(''u'', mkInfo None)])))
       = [mkItem ''b'', mkItem ''a'']"
  by (simp add: checkFeed_def mkEnv_def mkManager_def mkInfo_def mkFeed_def mkItem_def
      truthy_def saveFeeds_def setFeed_def Let_def postFeedItem_def)


text \<open>
  C1, as the code has it. For a feed entry that is polled (client set, entry active)
  and whose watermark is absent (\<open>null\<close>, \<open>undefined\<close> or the empty string), a
  successfully parsed non-empty document has its first five items (all of them when
  there are fewer) posted, oldest first, and the watermark becomes the \<open>guid\<close> of the
  document's first item.
\<close>

theorem checkFeed_first_poll:
  assumes "client s" "getFeed s channelId feedUrl = Some feedInfo" "active feedInfo"
    and "\<not> truthy (lastPostId feedInfo)"
    and "parseURL env feedUrl = Some feed" "items feed \<noteq> []"
  shows "attempted (snd (checkFeed env channelId feedUrl s)) = rev (take 5 (items feed))
       \<and> map_option lastPostId (getFeed (fst (checkFeed env channelId feedUrl s)) channelId feedUrl)
           = Some (guid (hd (items feed)))"
proof -
  have tw: "takeWhile (\<lambda>i. \<not> (truthy (lastPostId feedInfo) \<and> guid i = lastPostId feedInfo))
          (items feed) = items feed"
    using assms(4) by simp
  show ?thesis
    unfolding checkFeed_attempted[OF assms(1,2,3,5)] checkFeed_entry[OF assms(1,2,3,5)] tw
    using assms(6) by simp
qed


text \<open>Witness for C1: no watermark, a document of six items; the five newest are
  posted, oldest first, and the watermark becomes \<open>6\<close>.\<close>

theorem checkFeed_first_poll_witness:
  "attempted (snd (checkFeed
       (mkEnv (Some (mkFeed (map mkItem [''6'', ''5'', ''4'', ''3'', ''2'', ''1'']))))
       ''c'' ''u'' (mkManager 10 [(''u'', mkInfo None)])))
     = map mkItem [''2'', ''3'', ''4'', ''5'', ''6'']
   \<and> map_option lastPostId
        (getFeed (fst (checkFeed
            (mkEnv (Some (mkFeed (map mkItem [''6'', ''5'', ''4'', ''3'', ''2'', ''1'']))))
            ''c'' ''u'' (mkManager 10 [(''u'', mkInfo None)]))) ''c'' ''u'')
     = Some (Some ''6'')"
proof -
  let ?feed = "mkFeed (map mkItem [''6'', ''5'', ''4'', ''3'', ''2'', ''1''])"
  let ?s = "mkManager 10 [(''u'', mkInfo None)]"
  have h1: "client ?s" by (simp add: mkManager_def)
  have h2: "getFeed ?s ''c'' ''u'' = Some (mkInfo None)" by (rule mk_getFeed)
  have h3: "active (mkInfo None)" by (simp add: mkInfo_def)
  have h4: "\<not> truthy (lastPostId (mkInfo None))" by (simp add: mkInfo_def truthy_def)
  have h5: "parseURL (mkEnv (Some ?feed)) ''u'' = Some ?feed" by (simp add: mkEnv_def)
  have h6: "items ?feed \<noteq> []" by (simp add: mkFeed_def)
  from checkFeed_first_poll[OF h1 h2 h3 h4 h5 h6] show ?thesis
    by (simp add: mkFeed_def mkItem_def)
qed

text \<open>
  C2 as claimed fails when the watermark is the empty string, which JavaScript takes for
  no watermark: against the document \<open>[a, '', c]\<close> the poll does not stop at the item
  whose identifier is the watermark and all three items are posted and delivered,
  oldest first.
\<close>

theorem checkFeed_dedup_empty_watermark_counterexample:
  "lastPostId (mkInfo (Some '''')) = Some ''''
   \<and> delivered (snd (checkFeed (mkEnv (Some (mkFeed (map mkItem [''a'', '''', ''c'']))))
                        ''c'' ''u'' (mkManager 10 [(''u'', mkInfo (Some ''''))])))
       = map mkItem [''c'', '''', ''a'']"
  by (simp add: checkFeed_def mkEnv_def mkManager_def mkInfo_def mkFeed_def mkItem_def
      truthy_def saveFeeds_def setFeed_def Let_def postFeedItem_def)


text \<open>
  C2, as the code has it. The watermark is found by identifier, wherever it stands:
  with a watermark \<open>b\<close> that is a non-empty string and a document \<open>pre @ B # post\<close> in
  which \<open>B\<close> is the first item whose \<open>guid\<close> is \<open>b\<close>, the poll posts the items before
  \<open>B\<close> (the first five of them), oldest first; of these, exactly those that the channel
  accepts are delivered, in that order; and the watermark becomes the \<open>guid\<close> of the
  document's first item. For the document \<open>[A, B, C]\<close> this is: \<open>[A]\<close> is posted and the
  watermark becomes the identifier of \<open>A\<close>.
\<close>

theorem checkFeed_dedup:
  assumes "client s" "getFeed s channelId feedUrl = Some feedInfo" "active feedInfo"
    and "lastPostId feedInfo = Some b" "b \<noteq> []"
    and "parseURL env feedUrl = Some feed"
    and "items feed = pre @ B # post" "guid B = Some b" "\<forall>i \<in> set pre. guid i \<noteq> Some b"
  shows "attempted (snd (checkFeed env channelId feedUrl s)) = rev (take 5 pre)
       \<and> delivered (snd (checkFeed env channelId feedUrl s))
           = map snd (filter (\<lambda>(k, i). channel_send env k channelId i = Posted)
                        (zip [0 ..< length (take 5 pre)] (rev (take 5 pre))))
       \<and> map_option lastPostId (getFeed (fst (checkFeed env channelId feedUrl s)) channelId feedUrl)
           = Some (guid (hd (pre @ [B])))"
proof -
  have tw: "takeWhile (\<lambda>i. \<not> (truthy (lastPostId feedInfo) \<and> guid i = lastPostId feedInfo))
              (items feed) = pre"
    using assms(4,5,7,8,9) by (simp add: truthy_def takeWhile_append)
  have hdeq: "hd (items feed) = hd (pre @ [B])"
    using assms(7) by (cases pre) simp_all
  have ne: "items feed \<noteq> []" using assms(7) by simp
  show ?thesis
    unfolding checkFeed_attempted[OF assms(1,2,3,6)] checkFeed_entry[OF assms(1,2,3,6)]
      checkFeed_delivered[OF assms(1,2,3,6)] tw
    using hdeq ne by simp
qed


text \<open>Witness for C2: the document \<open>[a, b, c]\<close> against watermark \<open>b\<close>, on a channel
  that accepts every post.\<close>

theorem checkFeed_dedup_witness:
  "attempted (snd (checkFeed (mkEnv (Some (mkFeed [mkItem ''a'', mkItem ''b'', mkItem ''c''])))
                     ''c'' ''u'' (mkManager 10 [(''u'', mkInfo (Some ''b''))])))
     = [mkItem ''a'']
   \<and> delivered (snd (checkFeed (mkEnv (Some (mkFeed [mkItem ''a'', mkItem ''b'', mkItem ''c''])))
                     ''c'' ''u'' (mkManager 10 [(''u'', mkInfo (Some ''b''))])))
     = [mkItem ''a'']
   \<and> map_option lastPostId
        (getFeed (fst (checkFeed (mkEnv (Some (mkFeed [mkItem ''a'', mkItem ''b'', mkItem ''c''])))
                         ''c'' ''u'' (mkManager 10 [(''u'', mkInfo (Some ''b''))]))) ''c'' ''u'')
     = Some (Some ''a'')"
proof -
  let ?env = "mkEnv (Some (mkFeed [mkItem ''a'', mkItem ''b'', mkItem ''c'']))"
  let ?s = "mkManager 10 [(''u'', mkInfo (Some ''b''))]"
  have h1: "client ?s" by (simp add: mkManager_def)
  have h2: "getFeed ?s ''c'' ''u'' = Some (mkInfo (Some ''b''))" by (rule mk_getFeed)
  have h3: "active (mkInfo (Some ''b''))" by (simp add: mkInfo_def)
  have h4: "lastPostId (mkInfo (Some ''b'')) = Some ''b''" by (simp add: mkInfo_def)
  have h5: "''b'' \<noteq> []" by simp
  have h6: "parseURL ?env ''u'' = Some (mkFeed [mkItem ''a'', mkItem ''b'', mkItem ''c''])"
    by (simp add: mkEnv_def)
  have h7: "items (mkFeed [mkItem ''a'', mkItem ''b'', mkItem ''c'']) = [mkItem ''a''] @ mkItem ''b'' # [mkItem ''c'']"
    by (simp add: mkFeed_def)
  have h8: "guid (mkItem ''b'') = Some ''b''" by (simp add: mkItem_def)
  have h9: "\<forall>i \<in> set [mkItem ''a'']. guid i \<noteq> Some ''b''" by (simp add: mkItem_def)
  have send: "channel_send ?env = (\<lambda>k c i. Posted)" by (simp add: mkEnv_def)
  from checkFeed_dedup[OF h1 h2 h3 h4 h5 h6 h7 h8 h9] show ?thesis
    unfolding send by (simp add: mkItem_def)
qed






text \<open>
  C3 as claimed fails in its last part: an item that the cap has left out can still be
  posted at a later tick. Eight items are newer than watermark \<open>w\<close>; the poll posts
  \<open>4\<close> to \<open>8\<close> and leaves out \<open>3\<close>, \<open>2\<close>, \<open>1\<close>. The provider then withdraws item
  \<open>8\<close>; the next poll does not find watermark \<open>8\<close> in the document, takes its first
  five items for new, and posts \<open>3\<close>.
\<close>

theorem checkFeed_cap_later_tick_counterexample:
  "delivered (snd (checkFeed
       (mkEnv (Some (mkFeed (map mkItem [''8'', ''7'', ''6'', ''5'', ''4'', ''3'', ''2'', ''1'', ''w'']))))
       ''c'' ''u'' (mkManager 10 [(''u'', mkInfo (Some ''w''))])))
     = map mkItem [''4'', ''5'', ''6'', ''7'', ''8'']
   \<and> delivered (snd (checkFeed
       (mkEnv (Some (mkFeed (map mkItem [''7'', ''6'', ''5'', ''4'', ''3'', ''2'', ''1'', ''w'']))))
       ''c'' ''u''
       (fst (checkFeed
          (mkEnv (Some (mkFeed (map mkItem [''8'', ''7'', ''6'', ''5'', ''4'', ''3'', ''2'', ''1'', ''w'']))))
          ''c'' ''u'' (mkManager 10 [(''u'', mkInfo (Some ''w''))])))))
     = map mkItem [''3'', ''4'', ''5'', ''6'', ''7'']"
  by (simp add: checkFeed_def mkEnv_def mkManager_def mkInfo_def mkFeed_def mkItem_def
      truthy_def saveFeeds_def setFeed_def Let_def postFeedItem_def)


text \<open>
  C3, as the code has it. With a set watermark \<open>w\<close> and a document with more than
  five items before the one matching \<open>w\<close>, a poll posts exactly five items, the first
  five of the document (its five most recent), oldest first, and sets the watermark to
  the \<open>guid\<close> of the document's first item. The items left out are not posted at any
  later tick, as long as every later non-empty document keeps them behind: either the
  entry's watermark is set and no left-out item stands before the item matching it, or
  no left-out item is among the document's first five items. Failed fetches and empty
  documents in between change nothing.
\<close>

theorem checkFeed_cap:
  assumes "client s" "getFeed s channelId feedUrl = Some feedInfo" "active feedInfo"
    and "lastPostId feedInfo = Some w"
    and "parseURL env feedUrl = Some feed"
    and "length (takeWhile (\<lambda>i. guid i \<noteq> Some w) (items feed)) > 5"
    and "left_out_behind feedUrl (guid (hd (items feed)))
           (map guid (drop 5 (takeWhile (\<lambda>i. guid i \<noteq> Some w) (items feed)))) envs"
  shows "attempted (snd (checkFeed env channelId feedUrl s)) = rev (take 5 (items feed))
       \<and> length (attempted (snd (checkFeed env channelId feedUrl s))) = 5
       \<and> map_option lastPostId (getFeed (fst (checkFeed env channelId feedUrl s)) channelId feedUrl)
           = Some (guid (hd (items feed)))
       \<and> guid ` set (attempted (snd (ticks envs channelId feedUrl
                                        (fst (checkFeed env channelId feedUrl s)))))
           \<inter> guid ` set (drop 5 (takeWhile (\<lambda>i. guid i \<noteq> Some w) (items feed))) = {}"
proof -
  let ?P = "\<lambda>i. \<not> (truthy (lastPostId feedInfo) \<and> guid i = lastPostId feedInfo)"
  let ?s1 = "fst (checkFeed env channelId feedUrl s)"
  have ne: "items feed \<noteq> []" using assms(6) by auto
  have "length (takeWhile (\<lambda>i. guid i \<noteq> Some w) (items feed)) \<le> length (takeWhile ?P (items feed))"
    by (rule length_takeWhile_mono) (simp add: assms(4))
  with assms(6) have len: "5 \<le> length (takeWhile ?P (items feed))" by simp
  have att: "attempted (snd (checkFeed env channelId feedUrl s)) = rev (take 5 (items feed))"
    unfolding checkFeed_attempted[OF assms(1,2,3,5)] take_takeWhile_long[OF len] ..
  have five: "length (attempted (snd (checkFeed env channelId feedUrl s))) = 5"
    unfolding att using len length_takeWhile_le[of ?P "items feed"] by simp
  let ?fi1 = "feedInfo\<lparr>title := feed_title feed, description := feed_description feed,
                lastPostId := guid (hd (items feed)), lastChecked := Some (now env)\<rparr>"
  have e1: "getFeed ?s1 channelId feedUrl = Some ?fi1"
    unfolding checkFeed_entry[OF assms(1,2,3,5)] using ne by simp
  have wm: "map_option lastPostId (getFeed ?s1 channelId feedUrl) = Some (guid (hd (items feed)))"
    unfolding e1 by simp
  have c1: "client ?s1" by (rule checkFeed_client[OF assms(1,2,3,5)])
  have a1: "active ?fi1" using assms(3) by simp
  have l1: "lastPostId ?fi1 = guid (hd (items feed))" by simp
  have later: "guid ` set (attempted (snd (ticks envs channelId feedUrl ?s1)))
           \<inter> guid ` set (drop 5 (takeWhile (\<lambda>i. guid i \<noteq> Some w) (items feed))) = {}"
    using later_ticks_leave_out[OF assms(7) c1 e1 a1 l1] by simp
  from att five wm later show ?thesis by blast
qed


text \<open>Witness for C3: eight items newer than \<open>w\<close>, then one tick whose document is a
  window of six items, \<open>9\<close> in front and the older items dropped at the end.\<close>

theorem checkFeed_cap_witness:
  "attempted (snd (checkFeed
       (mkEnv (Some (mkFeed (map mkItem [''8'', ''7'', ''6'', ''5'', ''4'', ''3'', ''2'', ''1'', ''w'']))))
       ''c'' ''u'' (mkManager 10 [(''u'', mkInfo (Some ''w''))])))
     = map mkItem [''4'', ''5'', ''6'', ''7'', ''8'']
   \<and> map_option lastPostId (getFeed (fst (checkFeed
       (mkEnv (Some (mkFeed (map mkItem [''8'', ''7'', ''6'', ''5'', ''4'', ''3'', ''2'', ''1'', ''w'']))))
       ''c'' ''u'' (mkManager 10 [(''u'', mkInfo (Some ''w''))]))) ''c'' ''u'') = Some (Some ''8'')
   \<and> guid ` set (attempted (snd (ticks
            [mkEnv (Some (mkFeed (map mkItem [''9'', ''8'', ''7'', ''6'', ''5'', ''4''])))]
            ''c'' ''u''
            (fst (checkFeed
               (mkEnv (Some (mkFeed (map mkItem [''8'', ''7'', ''6'', ''5'', ''4'', ''3'', ''2'', ''1'', ''w'']))))
               ''c'' ''u'' (mkManager 10 [(''u'', mkInfo (Some ''w''))]))))))
         \<inter> {Some ''3'', Some ''2'', Some ''1''} = {}"
proof -
  let ?doc = "map mkItem [''8'', ''7'', ''6'', ''5'', ''4'', ''3'', ''2'', ''1'', ''w'']"
  let ?feed = "mkFeed ?doc"
  let ?env2 = "mkEnv (Some (mkFeed (map mkItem [''9'', ''8'', ''7'', ''6'', ''5'', ''4''])))"
  let ?s = "mkManager 10 [(''u'', mkInfo (Some ''w''))]"
  have h1: "client ?s" by (simp add: mkManager_def)
  have h2: "getFeed ?s ''c'' ''u'' = Some (mkInfo (Some ''w''))" by (rule mk_getFeed)
  have h3: "active (mkInfo (Some ''w''))" by (simp add: mkInfo_def)
  have h4: "lastPostId (mkInfo (Some ''w'')) = Some ''w''" by (simp add: mkInfo_def)
  have h5: "parseURL (mkEnv (Some ?feed)) ''u'' = Some ?feed" by (simp add: mkEnv_def)
  have tw: "takeWhile (\<lambda>i. guid i \<noteq> Some ''w'') (items ?feed)
              = map mkItem [''8'', ''7'', ''6'', ''5'', ''4'', ''3'', ''2'', ''1'']"
    by (simp add: mkFeed_def mkItem_def)
  have h6: "length (takeWhile (\<lambda>i. guid i \<noteq> Some ''w'') (items ?feed)) > 5"
    unfolding tw by simp
  have h7: "left_out_behind ''u'' (guid (hd (items ?feed)))
              (map guid (drop 5 (takeWhile (\<lambda>i. guid i \<noteq> Some ''w'') (items ?feed)))) [?env2]"
    unfolding tw by (simp add: mkEnv_def mkFeed_def mkItem_def truthy_def)
  have dr: "guid ` set (drop 5 (takeWhile (\<lambda>i. guid i \<noteq> Some ''w'') (items ?feed)))
              = {Some ''3'', Some ''2'', Some ''1''}"
    unfolding tw by (simp add: mkItem_def)
  from checkFeed_cap[OF h1 h2 h3 h4 h5 h6 h7] show ?thesis
    unfolding dr by (auto simp: mkFeed_def mkItem_def)
qed

section \<open>The registry\<close>

text \<open>
  C5, as the code has it. When (destination, url) is already in the registry, \<open>addFeed\<close>
  fails and returns the manager unchanged, so the entries of the destination and their
  number stay as they were. The checks run in the order validation, cap, duplicate: the
  error is \<open>InvalidFeed\<close> if the URL does not validate, else \<open>LimitExceeded\<close> if the
  destination is at its cap, and \<open>AlreadyExists\<close> only otherwise.
\<close>

theorem addFeed_duplicate:
  "getFeed s channelId feedUrl = Some feedInfo \<Longrightarrow>
   fst (addFeed env channelId feedUrl ival s) =
     Inl (if parseURL env feedUrl = None then InvalidFeed
          else if maxFeedsPerChannel (config s) \<le> int (length (getChannelFeeds s channelId))
          then LimitExceeded
          else AlreadyExists)
   \<and> fst (snd (addFeed env channelId feedUrl ival s)) = s"
proof -
  assume g: "getFeed s channelId feedUrl = Some feedInfo"
  from getFeed_cases[OF g] obtain cf
    where cf: "map_of (feeds s) channelId = Some cf" "map_of cf feedUrl = Some feedInfo" by blast
  have len: "length (getChannelFeeds s channelId) = length cf"
    using cf(1) by (simp add: getChannelFeeds_length)
  show ?thesis
  proof (cases "parseURL env feedUrl")
    case None
    then show ?thesis by (simp add: addFeed_invalid)
  next
    case (Some feed)
    show ?thesis
    proof (cases "maxFeedsPerChannel (config s) \<le> int (length cf)")
      case True
      with Some cf len show ?thesis by (simp add: addFeed_limit)
    next
      case False
      then have "int (length cf) < maxFeedsPerChannel (config s)" by simp
      from addFeed_exists[OF Some cf(1) this cf(2)] Some False len show ?thesis by simp
    qed
  qed
qed


text \<open>Witness for C5: re-adding the one feed of a destination whose cap is 10.\<close>

theorem addFeed_duplicate_witness:
  "fst (addFeed (mkEnv (Some (mkFeed []))) ''c'' ''u'' None (mkManager 10 [(''u'', mkInfo None)]))
     = Inl AlreadyExists
   \<and> fst (snd (addFeed (mkEnv (Some (mkFeed []))) ''c'' ''u'' None (mkManager 10 [(''u'', mkInfo None)])))
     = mkManager 10 [(''u'', mkInfo None)]"
  using addFeed_duplicate[OF mk_getFeed[of 10 "mkInfo None"],
      where env = "mkEnv (Some (mkFeed []))" and ival = None]
  by (simp add: mkEnv_def mkManager_def getChannelFeeds_def)


text \<open>
  C5 as claimed fails: with (destination, url) present and the destination at its cap
  (here one feed, cap 1), re-adding the same URL, which validates, is answered with
  \<open>LimitExceeded\<close>, not with \<open>AlreadyExists\<close>.
\<close>

theorem addFeed_duplicate_at_cap_counterexample:
  "getFeed (mkManager 1 [(''u'', mkInfo None)]) ''c'' ''u'' = Some (mkInfo None)
   \<and> parseURL (mkEnv (Some (mkFeed []))) ''u'' = Some (mkFeed [])
   \<and> fst (addFeed (mkEnv (Some (mkFeed []))) ''c'' ''u'' None (mkManager 1 [(''u'', mkInfo None)]))
       = Inl LimitExceeded"
  by (simp add: addFeed_def validateFeed_def mkEnv_def mkManager_def getFeed_def has_def Let_def)


text \<open>
  C6 as claimed fails in three places. An \<open>addFeed\<close> to a destination at its cap of a
  URL that does not validate fails with \<open>InvalidFeed\<close>, not with \<open>LimitExceeded\<close>:
  validation comes first. \<open>loadFeeds\<close> never looks at the cap: two feeds saved under cap
  10 are all loaded by a restart under cap 1. And under a negative cap the empty map
  that \<open>addFeed\<close> creates for a new destination already exceeds the cap.
\<close>

theorem capacity_invariant_counterexample:
  "int (length (getChannelFeeds (mkManager 1 [(''u'', mkInfo None)]) ''c'')) = 1
   \<and> fst (addFeed (mkEnv None) ''c'' ''v'' None (mkManager 1 [(''u'', mkInfo None)]))
       = Inl InvalidFeed
   \<and> capacity_ok (mkManager 10 [(''u'', mkInfo None), (''v'', mkInfo None)])
   \<and> \<not> capacity_ok (initialize \<lparr>defaultInterval = 300000, maxFeedsPerChannel = 1\<rparr>
          (feedsFile (fst (saveFeeds (mkEnv None)
             (mkManager 10 [(''u'', mkInfo None), (''v'', mkInfo None)])))))
   \<and> capacity_ok ((constructor Missing)\<lparr>config := \<lparr>defaultInterval = 300000, maxFeedsPerChannel = - 1\<rparr>\<rparr>)
   \<and> \<not> capacity_ok (fst (snd (addFeed (mkEnv (Some (mkFeed []))) ''c'' ''u'' None
          ((constructor Missing)\<lparr>config := \<lparr>defaultInterval = 300000, maxFeedsPerChannel = - 1\<rparr>\<rparr>))))"
  by (simp add: addFeed_def validateFeed_def mkEnv_def mkManager_def getChannelFeeds_def
      capacity_ok_def initialize_def loadFeeds_def saveFeeds_def constructor_def feedData_of_def
      loadChannel_def has_def Let_def)

text \<open>
  C6, as the code has it. With a cap that is not negative, "no destination holds more
  feeds than \<open>maxFeedsPerChannel\<close>" is kept by \<open>addFeed\<close>, \<open>removeFeed\<close>, \<open>checkFeed\<close>
  and \<open>saveFeeds\<close>, so every listing is at most as long as the cap; it holds again after
  a restart that loads the saved file under a cap that is not lower. An \<open>addFeed\<close> to a
  destination already at the cap fails, with \<open>InvalidFeed\<close> when the URL does not
  validate and with \<open>LimitExceeded\<close> otherwise; it leaves the listing of every
  destination and the total number of feeds as they were: no entry is created and none
  is evicted.
\<close>

theorem capacity_invariant:
  "(capacity_ok s \<and> 0 \<le> maxFeedsPerChannel (config s) \<longrightarrow>
      capacity_ok (fst (snd (addFeed env channelId feedUrl ival s)))
    \<and> capacity_ok (fst (snd (removeFeed env channelId feedUrl s)))
    \<and> capacity_ok (fst (checkFeed env channelId feedUrl s))
    \<and> capacity_ok (fst (saveFeeds env s))
    \<and> (distinct_keys (feeds s) \<and> writeJson_ok env
         \<and> maxFeedsPerChannel (config s) \<le> maxFeedsPerChannel cfg \<longrightarrow>
          capacity_ok (initialize cfg (feedsFile (fst (saveFeeds env s)))))
    \<and> int (length (getChannelFeeds s channelId)) \<le> maxFeedsPerChannel (config s))
   \<and> (maxFeedsPerChannel (config s) \<le> int (length (getChannelFeeds s channelId)) \<longrightarrow>
          fst (addFeed env channelId feedUrl ival s)
            = Inl (if parseURL env feedUrl = None then InvalidFeed else LimitExceeded)
        \<and> getChannelFeeds (fst (snd (addFeed env channelId feedUrl ival s))) d = getChannelFeeds s d
        \<and> getTotalFeedCount (fst (snd (addFeed env channelId feedUrl ival s))) = getTotalFeedCount s)"
proof (intro conjI impI)
  assume h: "capacity_ok s \<and> 0 \<le> maxFeedsPerChannel (config s)"
  show "capacity_ok (fst (snd (addFeed env channelId feedUrl ival s)))"
    using h by (simp add: addFeed_keeps_capacity)
  show "capacity_ok (fst (snd (removeFeed env channelId feedUrl s)))"
    using h by (simp add: removeFeed_keeps_capacity)
  show "capacity_ok (fst (checkFeed env channelId feedUrl s))"
    using h by (simp add: checkFeed_keeps_capacity)
  show "capacity_ok (fst (saveFeeds env s))"
    using h by (simp add: capacity_ok_def saveFeeds_def)
  show "int (length (getChannelFeeds s channelId)) \<le> maxFeedsPerChannel (config s)"
    using h by (simp add: capacity_listing)
  assume r: "distinct_keys (feeds s) \<and> writeJson_ok env
         \<and> maxFeedsPerChannel (config s) \<le> maxFeedsPerChannel cfg"
  show "capacity_ok (initialize cfg (feedsFile (fst (saveFeeds env s))))"
    using h r by (simp add: initialize_saved_capacity)
next
  assume c: "maxFeedsPerChannel (config s) \<le> int (length (getChannelFeeds s channelId))"
  show "fst (addFeed env channelId feedUrl ival s)
            = Inl (if parseURL env feedUrl = None then InvalidFeed else LimitExceeded)"
    by (rule addFeed_at_cap_result(1)[OF c])
  show "getChannelFeeds (fst (snd (addFeed env channelId feedUrl ival s))) d = getChannelFeeds s d"
    by (rule addFeed_at_cap_result(2)[OF c])
  show "getTotalFeedCount (fst (snd (addFeed env channelId feedUrl ival s))) = getTotalFeedCount s"
    by (rule addFeed_at_cap_result(3)[OF c])
qed


text \<open>Witness for C6: a destination with one feed and cap 1; adding a second URL, and
  a restart under cap 10.\<close>

theorem capacity_invariant_witness:
  "capacity_ok (mkManager 1 [(''u'', mkInfo None)])
   \<and> capacity_ok (fst (snd (addFeed (mkEnv (Some (mkFeed []))) ''c'' ''v'' None (mkManager 1 [(''u'', mkInfo None)]))))
   \<and> capacity_ok (fst (snd (removeFeed (mkEnv (Some (mkFeed []))) ''c'' ''v'' (mkManager 1 [(''u'', mkInfo None)]))))
   \<and> capacity_ok (fst (checkFeed (mkEnv (Some (mkFeed []))) ''c'' ''v'' (mkManager 1 [(''u'', mkInfo None)])))
   \<and> capacity_ok (initialize \<lparr>defaultInterval = 300000, maxFeedsPerChannel = 10\<rparr>
        (feedsFile (fst (saveFeeds (mkEnv (Some (mkFeed []))) (mkManager 1 [(''u'', mkInfo None)])))))
   \<and> fst (addFeed (mkEnv (Some (mkFeed []))) ''c'' ''v'' None (mkManager 1 [(''u'', mkInfo None)]))
       = Inl LimitExceeded
   \<and> getChannelFeeds (fst (snd (addFeed (mkEnv (Some (mkFeed []))) ''c'' ''v'' None
                                   (mkManager 1 [(''u'', mkInfo None)])))) ''c''
       = getChannelFeeds (mkManager 1 [(''u'', mkInfo None)]) ''c''"
proof -
  let ?s = "mkManager 1 [(''u'', mkInfo None)]"
  let ?env = "mkEnv (Some (mkFeed []))"
  let ?cfg = "\<lparr>defaultInterval = 300000, maxFeedsPerChannel = 10\<rparr>"
  have h1: "capacity_ok ?s \<and> 0 \<le> maxFeedsPerChannel (config ?s)"
    by (simp add: capacity_ok_def mkManager_def)
  have h2: "distinct_keys (feeds ?s) \<and> writeJson_ok ?env
         \<and> maxFeedsPerChannel (config ?s) \<le> maxFeedsPerChannel ?cfg"
    by (simp add: distinct_keys_def mkManager_def mkEnv_def)
  have h3: "maxFeedsPerChannel (config ?s) \<le> int (length (getChannelFeeds ?s ''c''))"
    by (simp add: mkManager_def getChannelFeeds_def)
  have p: "parseURL ?env ''v'' \<noteq> None" by (simp add: mkEnv_def)
  from capacity_invariant[where s = ?s and env = ?env and channelId = "''c''" and feedUrl = "''v''"
      and ival = None and d = "''c''" and cfg = ?cfg] h1 h2 h3 p
  show ?thesis by auto
qed


text \<open>
  C10 fails on the code when the cap is 0: \<open>addFeed\<close> creates the destination's map
  before it checks the cap, and returns \<open>LimitExceeded\<close> with the empty map left in the
  registry. The destination key is then mapped to an empty feed map, and the statistics
  count one channel holding no feed.
\<close>

theorem addFeed_leaves_empty_channel:
  "addFeed (mkEnv (Some (mkFeed []))) ''c'' ''u'' None
       ((constructor Missing)\<lparr>config := \<lparr>defaultInterval = 300000, maxFeedsPerChannel = 0\<rparr>\<rparr>)
     = (Inl LimitExceeded,
        (constructor Missing)\<lparr>config := \<lparr>defaultInterval = 300000, maxFeedsPerChannel = 0\<rparr>,
                              feeds := [(''c'', [])]\<rparr>,
        [Fetch ''u''])
   \<and> totalChannels (getStatistics ((constructor Missing)
         \<lparr>config := \<lparr>defaultInterval = 300000, maxFeedsPerChannel = 0\<rparr>, feeds := [(''c'', [])]\<rparr>)) = 1
   \<and> totalFeeds (getStatistics ((constructor Missing)
         \<lparr>config := \<lparr>defaultInterval = 300000, maxFeedsPerChannel = 0\<rparr>, feeds := [(''c'', [])]\<rparr>)) = 0"
  by (simp add: addFeed_def validateFeed_def mkEnv_def constructor_def has_def Let_def
      getStatistics_def getTotalFeedCount_def)


section \<open>Persistence\<close>

text \<open>
  C7, as the code has it. After a successful save, a restart (\<open>initialize\<close>, the only
  caller of \<open>loadFeeds\<close>) rebuilds the registry with the same destinations in the same
  order and the same URLs under each destination; every entry comes back with the same
  \<open>url\<close>, \<open>active\<close> flag and \<open>lastChecked\<close>, with the same interval unless that was
  0 (then the built-in default 300000), and with the same watermark unless that was
  the empty string (then absent); a missing or empty title becomes \<open>Unknown Feed\<close> and
  a missing description the empty string. The same holds, destination by destination and
  entry by entry, when \<open>loadFeeds\<close> runs in the manager that has just saved (a zero
  interval then becomes that manager's \<open>defaultInterval\<close>). Loading when the file is
  absent gives the empty registry.
\<close>

theorem save_load_roundtrip:
  assumes "distinct_keys (feeds s)" "writeJson_ok env"
  shows "map fst (feeds (initialize cfg (feedsFile (fst (saveFeeds env s))))) = map fst (feeds s)
       \<and> map l_url (getChannelFeeds (initialize cfg (feedsFile (fst (saveFeeds env s)))) d)
           = map l_url (getChannelFeeds s d)
       \<and> getFeed (initialize cfg (feedsFile (fst (saveFeeds env s)))) d u
           = map_option
               (\<lambda>fi. fi\<lparr>interval := (if interval fi = 0 then 300000 else interval fi),
                         lastPostId := (if lastPostId fi = Some [] then None else lastPostId fi),
                         title := Some (or_str (title fi) ''Unknown Feed''),
                         description := Some (or_str (description fi) [])\<rparr>)
               (getFeed s d u)
       \<and> has (feeds (loadFeeds (fst (saveFeeds env s)))) d = has (feeds s) d
       \<and> getFeed (loadFeeds (fst (saveFeeds env s))) d u
           = map_option
               (\<lambda>fi. fi\<lparr>interval := (if interval fi = 0 then defaultInterval (config s) else interval fi),
                         lastPostId := (if lastPostId fi = Some [] then None else lastPostId fi),
                         title := Some (or_str (title fi) ''Unknown Feed''),
                         description := Some (or_str (description fi) [])\<rparr>)
               (getFeed s d u)
       \<and> feeds (initialize cfg Missing) = []"
proof -
  let ?s' = "initialize cfg (feedsFile (fst (saveFeeds env s)))"
  let ?n = "\<lambda>fi. loadInfo (config (constructor Missing)) (storeInfo fi)"
  have f: "feeds ?s' = map (\<lambda>(d, cf). (d, map (\<lambda>(u, fi). (u, ?n fi)) cf)) (feeds s)"
    by (rule initialize_saved[OF assms])
  have keys: "map fst (feeds ?s') = map fst (feeds s)"
    unfolding f by (simp add: comp_def split_beta)
  have look: "map_of (feeds ?s') d = map_option (map (\<lambda>(u, fi). (u, ?n fi))) (map_of (feeds s) d)"
    unfolding f by (simp add: map_of_map)
  have urls: "map l_url (getChannelFeeds ?s' d) = map l_url (getChannelFeeds s d)"
    by (cases "map_of (feeds s) d") (simp_all add: getChannelFeeds_def look comp_def split_beta)
  have n: "?n = (\<lambda>fi. fi\<lparr>interval := (if interval fi = 0 then 300000 else interval fi),
                         lastPostId := (if lastPostId fi = Some [] then None else lastPostId fi),
                         title := Some (or_str (title fi) ''Unknown Feed''),
                         description := Some (or_str (description fi) [])\<rparr>)"
    by (simp add: loadInfo_storeInfo constructor_def cong: if_cong)
  have entry: "getFeed ?s' d u = map_option ?n (getFeed s d u)"
    by (cases "map_of (feeds s) d") (simp_all add: getFeed_def look map_of_map)
  have missing: "feeds (initialize cfg Missing) = []"
    by (simp add: initialize_def loadFeeds_def constructor_def)
  have same: "has (feeds (loadFeeds (fst (saveFeeds env s)))) d = has (feeds s) d"
    by (rule reload_entry(2)[OF assms])
  have again: "getFeed (loadFeeds (fst (saveFeeds env s))) d u
           = map_option
               (\<lambda>fi. fi\<lparr>interval := (if interval fi = 0 then defaultInterval (config s) else interval fi),
                         lastPostId := (if lastPostId fi = Some [] then None else lastPostId fi),
                         title := Some (or_str (title fi) ''Unknown Feed''),
                         description := Some (or_str (description fi) [])\<rparr>)
               (getFeed s d u)"
    unfolding reload_entry(1)[OF assms] loadInfo_storeInfo ..
  from keys urls entry missing same again show ?thesis unfolding n by blast
qed

text \<open>Witness for C7: one destination with one feed, watermark \<open>a\<close>; the entry comes
  back as it was.\<close>

theorem save_load_roundtrip_witness:
  "getFeed (initialize (config (mkManager 10 [(''u'', mkInfo (Some ''a''))]))
       (feedsFile (fst (saveFeeds (mkEnv None) (mkManager 10 [(''u'', mkInfo (Some ''a''))])))))
     ''c'' ''u''
     = Some (mkInfo (Some ''a''))
   \<and> map fst (feeds (initialize (config (mkManager 10 [(''u'', mkInfo (Some ''a''))]))
       (feedsFile (fst (saveFeeds (mkEnv None) (mkManager 10 [(''u'', mkInfo (Some ''a''))]))))))
     = [''c'']"
proof -
  let ?s = "mkManager 10 [(''u'', mkInfo (Some ''a''))]"
  have h1: "distinct_keys (feeds ?s)" by (simp add: distinct_keys_def mkManager_def)
  have h2: "writeJson_ok (mkEnv None)" by (simp add: mkEnv_def)
  have g: "getFeed ?s ''c'' ''u'' = Some (mkInfo (Some ''a''))" by (rule mk_getFeed)
  have k: "map fst (feeds ?s) = [''c'']" by (simp add: mkManager_def)
  from save_load_roundtrip[OF h1 h2, of "config ?s" "''c''" "''u''"] show ?thesis
    unfolding g k by (simp add: mkInfo_def or_str_def)
qed


text \<open>
  C7 as claimed fails for some registry states. With \<open>defaultInterval\<close> 0 in the
  configuration a feed is added with interval 0, and a poll of a document whose first
  item has an empty \<open>guid\<close> sets the watermark to the empty string. Both are saved as
  they are; after the restart the interval is 300000 and the watermark is absent.
\<close>

theorem save_load_roundtrip_counterexample:
  "map_option interval (getFeed
      (fst (checkFeed (mkEnv (Some (mkFeed [mkItem '''']))) ''c'' ''u''
         (fst (snd (addFeed (mkEnv (Some (mkFeed [mkItem '''']))) ''c'' ''u'' None
            ((constructor Missing)\<lparr>config := \<lparr>defaultInterval = 0, maxFeedsPerChannel = 10\<rparr>,
                                  client := True\<rparr>)))))) ''c'' ''u'') = Some 0
   \<and> map_option lastPostId (getFeed
      (fst (checkFeed (mkEnv (Some (mkFeed [mkItem '''']))) ''c'' ''u''
         (fst (snd (addFeed (mkEnv (Some (mkFeed [mkItem '''']))) ''c'' ''u'' None
            ((constructor Missing)\<lparr>config := \<lparr>defaultInterval = 0, maxFeedsPerChannel = 10\<rparr>,
                                  client := True\<rparr>)))))) ''c'' ''u'') = Some (Some '''')
   \<and> map_option interval (getFeed
      (initialize \<lparr>defaultInterval = 0, maxFeedsPerChannel = 10\<rparr>
        (feedsFile (fst (checkFeed (mkEnv (Some (mkFeed [mkItem '''']))) ''c'' ''u''
         (fst (snd (addFeed (mkEnv (Some (mkFeed [mkItem '''']))) ''c'' ''u'' None
            ((constructor Missing)\<lparr>config := \<lparr>defaultInterval = 0, maxFeedsPerChannel = 10\<rparr>,
                                  client := True\<rparr>)))))))) ''c'' ''u'') = Some 300000
   \<and> map_option lastPostId (getFeed
      (initialize \<lparr>defaultInterval = 0, maxFeedsPerChannel = 10\<rparr>
        (feedsFile (fst (checkFeed (mkEnv (Some (mkFeed [mkItem '''']))) ''c'' ''u''
         (fst (snd (addFeed (mkEnv (Some (mkFeed [mkItem '''']))) ''c'' ''u'' None
            ((constructor Missing)\<lparr>config := \<lparr>defaultInterval = 0, maxFeedsPerChannel = 10\<rparr>,
                                  client := True\<rparr>)))))))) ''c'' ''u'') = Some None"
proof -
  let ?env = "mkEnv (Some (mkFeed [mkItem '''']))"
  let ?s0 = "(constructor Missing)\<lparr>config := \<lparr>defaultInterval = 0, maxFeedsPerChannel = 10\<rparr>,
                                  client := True\<rparr>"
  let ?fi1 = "\<lparr> url = Some ''u'', interval = 0, lastChecked = None, lastPostId = None,
                active = True, title = Some ''T'', description = Some ''D'' \<rparr>"
  let ?fi2 = "\<lparr> url = Some ''u'', interval = 0, lastChecked = Some 1000, lastPostId = Some '''',
                active = True, title = Some ''T'', description = Some ''D'' \<rparr>"
  have s1: "fst (snd (addFeed ?env ''c'' ''u'' None ?s0))
              = ?s0\<lparr>feeds := [(''c'', [(''u'', ?fi1)])],
                     feedsFile := Json [(''c'', [(''u'', storeInfo ?fi1)])],
                     cronJobs := [(''c-u'', 1)]\<rparr>"
    by (simp add: addFeed_def validateFeed_def mkEnv_def mkFeed_def constructor_def has_def Let_def
        saveFeeds_def or_int_def or_str_def feedData_of_def startFeedCheck_def stopFeedCheck_def
        getFeed_def feedKey_def)
  have s2: "fst (checkFeed ?env ''c'' ''u'' (fst (snd (addFeed ?env ''c'' ''u'' None ?s0))))
              = ?s0\<lparr>feeds := [(''c'', [(''u'', ?fi2)])],
                     feedsFile := Json [(''c'', [(''u'', storeInfo ?fi2)])],
                     cronJobs := [(''c-u'', 1)]\<rparr>"
    unfolding s1
    by (simp add: checkFeed_def mkEnv_def mkFeed_def mkItem_def constructor_def Let_def
        saveFeeds_def setFeed_def truthy_def feedData_of_def postFeedItem_def)
  show ?thesis
    unfolding s2
    by (simp add: getFeed_def initialize_def loadFeeds_def constructor_def loadChannel_def
        has_def Let_def loadInfo_def storeInfo_def or_int_def or_str_def truthy_def)
qed

end
